theory Spec2Isabelle
  imports Complex_Main "HOL-Library.Multiset" "HOL-Library.AList"
begin

section \<open>JavaScript values used by the reports\<close>

subsection \<open>Numbers\<close>

text \<open>
  A JavaScript number is an IEEE-754 binary64 value. A finite number is modelled by the
  rational it denotes; \<open>+\<close> on numbers adds exactly and rounds the sum to 53 significant
  bits, ties to even. The exponent range (overflow to Infinity, subnormal numbers), NaN
  and the sign of zero are not modelled.
\<close>

type_synonym number = rat

function bit_length :: "int \<Rightarrow> int" where
  \<comment> \<open>the number of binary digits of a positive integer\<close>
  "bit_length n = (if 0 < n then 1 + bit_length (n div 2) else 0)"
  by pat_completeness auto
termination
  by (relation "measure nat") auto

declare bit_length.simps [simp del]

definition floor_log2 :: "rat \<Rightarrow> int" where
  \<comment> \<open>the exponent \<open>e\<close> with \<open>2^e \<le> |x| < 2^(e+1)\<close>, for \<open>x \<noteq> 0\<close>\<close>
  "floor_log2 x =
     (let (p, q) = quotient_of \<bar>x\<bar>; k = bit_length p - bit_length q
      in if 2 powi k \<le> \<bar>x\<bar> then k else k - 1)"

definition round_half_even :: "rat \<Rightarrow> int" where
  "round_half_even x =
     (let n = \<lfloor>x\<rfloor>; r = x - of_int n
      in if r < 1 / 2 then n else if 1 / 2 < r then n + 1
         else if even n then n else n + 1)"

definition round_binary64 :: "rat \<Rightarrow> number" where
  "round_binary64 x =
     (if x = 0 then 0
      else let u = 2 powi (floor_log2 x - 52)
           in of_int (round_half_even (x / u)) * u)"

definition js_add :: "number \<Rightarrow> number \<Rightarrow> number" where
  "js_add x y = round_binary64 (x + y)"

subsection \<open>Strings\<close>

definition digit_of :: "nat \<Rightarrow> char" where
  "digit_of n = ''0123456789'' ! n"

fun show_nat :: "nat \<Rightarrow> string" where
  "show_nat n = (if n < 10 then [digit_of n] else show_nat (n div 10) @ [digit_of (n mod 10)])"

declare show_nat.simps [simp del]

definition show_int :: "int \<Rightarrow> string" where
  \<comment> \<open>\<open>String(n)\<close> of an integral number, as a template literal inserts it\<close>
  "show_int i = (if i < 0 then CHR ''-'' # show_nat (nat (- i)) else show_nat (nat i))"

definition padStart2 :: "string \<Rightarrow> string" where
  \<comment> \<open>\<open>s.padStart(2, '0')\<close>\<close>
  "padStart2 s = replicate (2 - length s) CHR ''0'' @ s"

fun split_chr :: "char \<Rightarrow> string \<Rightarrow> string list" where
  \<comment> \<open>\<open>s.split(c)\<close> for a separator of one character\<close>
  "split_chr c [] = [[]]"
| "split_chr c (x # xs) =
     (if x = c then [] # split_chr c xs
      else (case split_chr c xs of w # ws \<Rightarrow> (x # w) # ws | [] \<Rightarrow> [[x]]))"

definition is_digit :: "char \<Rightarrow> bool" where
  "is_digit c = (c \<in> set ''0123456789'')"

definition digit_val :: "char \<Rightarrow> nat" where
  "digit_val c = of_char c - 48"

definition digits_val :: "string \<Rightarrow> nat" where
  "digits_val ds = foldl (\<lambda>a c. 10 * a + digit_val c) 0 ds"

definition is_space :: "char \<Rightarrow> bool" where
  "is_space c = (c \<in> {CHR '' '', CHR 0x09, CHR 0x0A, CHR 0x0B, CHR 0x0C, CHR 0x0D})"

definition parseInt :: "string \<Rightarrow> int option" where
  \<comment> \<open>\<open>parseInt(s)\<close> in radix 10: leading white space, an optional sign, the longest
      prefix of digits; \<open>None\<close> is NaN. The prefix \<open>0x\<close> (radix 16) is not modelled.\<close>
  "parseInt s =
     (let s1 = dropWhile is_space s;
          neg = (case s1 of c # _ \<Rightarrow> c = CHR ''-'' | [] \<Rightarrow> False);
          s2 = (case s1 of c # r \<Rightarrow> if c = CHR ''-'' \<or> c = CHR ''+'' then r else s1 | [] \<Rightarrow> s1);
          ds = takeWhile is_digit s2
      in if ds = [] then None
         else Some ((if neg then - 1 else 1) * int (digits_val ds)))"

definition toLowerCase_chr :: "char \<Rightarrow> char" where
  "toLowerCase_chr c =
     (let n = (of_char c :: nat) in if 65 \<le> n \<and> n \<le> 90 then char_of (n + 32) else c)"

definition toLowerCase :: "string \<Rightarrow> string" where
  "toLowerCase s = map toLowerCase_chr s"

fun str_includes :: "string \<Rightarrow> string \<Rightarrow> bool" where
  \<comment> \<open>\<open>str_includes pat s\<close>: the pattern occurs in \<open>s\<close>\<close>
  "str_includes pat [] = (pat = [])"
| "str_includes pat (x # xs) = (take (length pat) (x # xs) = pat \<or> str_includes pat xs)"

subsection \<open>Dates\<close>

text \<open>
  A \<open>Date\<close> object is its time value in milliseconds; \<open>None\<close> is the Invalid Date.
  Time values are read on the local civil time line (a fixed offset to UTC), so that
  \<open>getFullYear\<close> and \<open>getMonth\<close> are the year and month of the time value as ECMA-262
  defines them. The range limit of time values is not modelled.
\<close>

type_synonym jsdate = "int option"

definition msPerDay :: int where
  "msPerDay = 86400000"

definition Day :: "int \<Rightarrow> int" where
  "Day t = t div msPerDay"

definition DaysInYear :: "int \<Rightarrow> int" where
  "DaysInYear y =
     (if y mod 4 \<noteq> 0 then 365 else if y mod 100 \<noteq> 0 then 366
      else if y mod 400 \<noteq> 0 then 365 else 366)"

definition DayFromYear :: "int \<Rightarrow> int" where
  "DayFromYear y = 365 * (y - 1970) + (y - 1969) div 4 - (y - 1901) div 100 + (y - 1601) div 400"

definition YearFromTime :: "int \<Rightarrow> int" where
  \<comment> \<open>the largest year whose first day is not after the day of \<open>t\<close>\<close>
  "YearFromTime t =
     (let d = Day t; y = 1970 + (400 * d) div 146097
      in if DayFromYear (y + 1) \<le> d then y + 1 else if d < DayFromYear y then y - 1 else y)"

definition DayWithinYear :: "int \<Rightarrow> int" where
  "DayWithinYear t = Day t - DayFromYear (YearFromTime t)"

definition InLeapYear :: "int \<Rightarrow> int" where
  "InLeapYear t = (if DaysInYear (YearFromTime t) = 366 then 1 else 0)"

definition MonthFromTime :: "int \<Rightarrow> int" where
  "MonthFromTime t =
     (let d = DayWithinYear t; l = InLeapYear t
      in if d < 31 then 0 else if d < 59 + l then 1 else if d < 90 + l then 2
         else if d < 120 + l then 3 else if d < 151 + l then 4 else if d < 181 + l then 5
         else if d < 212 + l then 6 else if d < 243 + l then 7 else if d < 273 + l then 8
         else if d < 304 + l then 9 else if d < 334 + l then 10 else 11)"

definition getFullYear :: "int \<Rightarrow> int" where
  "getFullYear t = YearFromTime t"

definition getMonth :: "int \<Rightarrow> int" where
  "getMonth t = MonthFromTime t"

definition MakeDay :: "int \<Rightarrow> int \<Rightarrow> int \<Rightarrow> int" where
  \<comment> \<open>the day number of day \<open>dt\<close> of month \<open>m\<close> (from 0) of year \<open>y\<close>; months and days
      outside their range carry over\<close>
  "MakeDay y m dt =
     (let ym = y + m div 12; mn = m mod 12; l = (if DaysInYear ym = 366 then 1 else 0);
          prior = (if mn = 0 then 0 else if mn = 1 then 31 else [59, 90, 120, 151, 181, 212, 243,
                      273, 304, 334] ! nat (mn - 2) + l)
      in DayFromYear ym + prior + dt - 1)"

definition leap_day :: "int \<Rightarrow> int" where
  \<comment> \<open>1 in a leap year, 0 otherwise\<close>
  "leap_day y = (if DaysInYear y = 366 then 1 else 0)"

definition new_Date :: "int option \<Rightarrow> int option \<Rightarrow> int \<Rightarrow> jsdate" where
  \<comment> \<open>\<open>new Date(year, month, day)\<close>: NaN arguments give the Invalid Date, and a year from
      0 to 99 means 1900 + year\<close>
  "new_Date year month dt =
     (case (year, month) of
        (Some y, Some m) \<Rightarrow>
          Some (MakeDay (if 0 \<le> y \<and> y \<le> 99 then 1900 + y else y) m dt * msPerDay)
      | _ \<Rightarrow> None)"

section \<open>The tabular row model (types/excel.ts)\<close>

datatype jsvalue =
    VString string
  | VNumber number
  | VBool bool
  | VDate int  \<comment> \<open>a \<open>Date\<close> object, by its time value; the decoder yields valid dates only\<close>
  | VNull
  | VUndefined

record CellValue =
  cell_value :: jsvalue
  formatted :: "string option"

type_synonym row = "(string \<times> CellValue) list"  \<comment> \<open>a \<open>Record<string, CellValue>\<close>, by its properties\<close>

record WorksheetData =
  name :: string
  fileName :: string
  headers :: "string list"
  data :: "row list"
  rawData :: "jsvalue list list"

text \<open>
  What the reports take from the JavaScript engine: \<open>Date.parse\<close> (\<open>None\<close> for NaN, so
  that \<open>new Date(s)\<close> is valid exactly where it is not \<open>None\<close>), the conversions of numbers
  and dates to strings, and the clock.
\<close>

record runtime =
  Date_parse :: "string \<Rightarrow> int option"
  Number_toString :: "number \<Rightarrow> string"
  Date_toString :: "int \<Rightarrow> string"
  Date_now :: int

definition cell :: "row \<Rightarrow> string \<Rightarrow> jsvalue" where
  \<comment> \<open>\<open>row[header]?.value\<close>\<close>
  "cell r h = (case map_of r h of None \<Rightarrow> VUndefined | Some c \<Rightarrow> cell_value c)"

definition truthy :: "jsvalue \<Rightarrow> bool" where
  "truthy v =
     (case v of VString s \<Rightarrow> s \<noteq> [] | VNumber x \<Rightarrow> x \<noteq> 0 | VBool b \<Rightarrow> b
      | VDate _ \<Rightarrow> True | VNull \<Rightarrow> False | VUndefined \<Rightarrow> False)"

definition is_string :: "jsvalue \<Rightarrow> bool" where
  "is_string v = (case v of VString _ \<Rightarrow> True | _ \<Rightarrow> False)"

definition is_number :: "jsvalue \<Rightarrow> bool" where
  "is_number v = (case v of VNumber _ \<Rightarrow> True | _ \<Rightarrow> False)"

definition is_Date :: "jsvalue \<Rightarrow> bool" where
  "is_Date v = (case v of VDate _ \<Rightarrow> True | _ \<Rightarrow> False)"

definition js_String :: "runtime \<Rightarrow> jsvalue \<Rightarrow> string" where
  \<comment> \<open>\<open>String(v)\<close> and \<open>v.toString()\<close>\<close>
  "js_String R v =
     (case v of VString s \<Rightarrow> s | VNumber x \<Rightarrow> Number_toString R x
      | VBool b \<Rightarrow> (if b then ''true'' else ''false'') | VDate t \<Rightarrow> Date_toString R t
      | VNull \<Rightarrow> ''null'' | VUndefined \<Rightarrow> ''undefined'')"

definition truthy_str :: "string option \<Rightarrow> bool" where
  \<comment> \<open>truthiness of a state variable of type \<open>string | null\<close>\<close>
  "truthy_str s = (case s of None \<Rightarrow> False | Some x \<Rightarrow> x \<noteq> [])"

definition sheet_id :: "WorksheetData \<Rightarrow> string" where
  \<comment> \<open>the template literal \<open>`${sheet.fileName}-${sheet.name}`\<close>\<close>
  "sheet_id s = fileName s @ ''-'' @ name s"

definition selectedSheetData :: "WorksheetData list \<Rightarrow> string option \<Rightarrow> WorksheetData option" where
  "selectedSheetData excelData selectedSheet =
     (if \<not> truthy_str selectedSheet then None
      else find (\<lambda>sheet. Some (sheet_id sheet) = selectedSheet) excelData)"

section \<open>Maps and sorting\<close>

text \<open>
  A \<open>Map\<close> keeps its entries in the order of first insertion: an association list,
  \<open>has\<close> and \<open>get\<close> being \<^const>\<open>map_of\<close> and \<open>set\<close> being \<^const>\<open>AList.update\<close>.
\<close>

definition add_to :: "string \<Rightarrow> number \<Rightarrow> (string \<times> number) list \<Rightarrow> (string \<times> number) list" where
  \<comment> \<open>\<open>if (m.has(k)) m.set(k, m.get(k)! + v) else m.set(k, v)\<close>\<close>
  "add_to k v m =
     (case map_of m k of Some old \<Rightarrow> AList.update k (js_add old v) m
      | None \<Rightarrow> AList.update k v m)"

text \<open>
  \<open>Array.prototype.sort\<close> is stable, which fixes its result for a comparator that orders
  the elements by a key. \<open>sort_by after\<close> inserts every element before the first element
  it need not come after; \<open>after a b\<close> says that the comparator is positive on \<open>(a, b)\<close>.
  Where the comparator is no consistent order (its difference is \<open>NaN\<close> against an
  Invalid Date) the language leaves the order to the engine: \<open>sort_by\<close> then gives one
  arrangement of the elements, and only the elements, not their order, are used of it.
\<close>

fun insert_by :: "('a \<Rightarrow> 'a \<Rightarrow> bool) \<Rightarrow> 'a \<Rightarrow> 'a list \<Rightarrow> 'a list" where
  "insert_by after x [] = [x]"
| "insert_by after x (y # ys) = (if after x y then y # insert_by after x ys else x # y # ys)"

definition sort_by :: "('a \<Rightarrow> 'a \<Rightarrow> bool) \<Rightarrow> 'a list \<Rightarrow> 'a list" where
  "sort_by after xs = foldr (insert_by after) xs []"

definition agg_step ::
  "('a \<Rightarrow> (string \<times> number) option) \<Rightarrow> (string \<times> number) list \<Rightarrow> 'a \<Rightarrow> (string \<times> number) list" where
  \<comment> \<open>one call of the callback of \<open>forEach\<close>: the element either returns early (\<open>None\<close>) or
      adds its value to the entry of its key\<close>
  "agg_step f m x = (case f x of None \<Rightarrow> m | Some (k, v) \<Rightarrow> add_to k v m)"

definition aggregate :: "('a \<Rightarrow> (string \<times> number) option) \<Rightarrow> 'a list \<Rightarrow> (string \<times> number) list" where
  \<comment> \<open>the \<open>forEach\<close> loop of every report, from the empty map\<close>
  "aggregate f xs = foldl (agg_step f) [] xs"

section \<open>The reports\<close>

record bucket =
  monthKey :: string
  month :: string
  total :: number
  date :: jsdate
  source :: "string option"

definition row_date :: "runtime \<Rightarrow> jsvalue \<Rightarrow> int option" where
  \<comment> \<open>the date of a row, as every report reads it: nothing for a falsy cell, a string
      through \<open>new Date(s)\<close> unless that is invalid, a \<open>Date\<close> as it is, nothing else\<close>
  "row_date R v =
     (case v of VString s \<Rightarrow> (if s = [] then None else Date_parse R s)
      | VDate t \<Rightarrow> Some t
      | _ \<Rightarrow> None)"

definition month2 :: "int \<Rightarrow> string" where
  \<comment> \<open>\<open>String(date.getMonth() + 1).padStart(2, '0')\<close>\<close>
  "month2 t = padStart2 (show_int (getMonth t + 1))"

definition monthKey_of :: "int \<Rightarrow> string" where
  "monthKey_of t = show_int (getFullYear t) @ ''-'' @ month2 t"

definition monthYear_of :: "int \<Rightarrow> string" where
  "monthYear_of t = month2 t @ ''/'' @ show_int (getFullYear t)"

definition date_after :: "bucket \<Rightarrow> bucket \<Rightarrow> bool" where
  \<comment> \<open>\<open>a.date.getTime() - b.date.getTime() > 0\<close>; false when the difference is NaN\<close>
  "date_after a b = (case (date a, date b) of (Some x, Some y) \<Rightarrow> y < x | _ \<Rightarrow> False)"

definition nth_str :: "string list \<Rightarrow> nat \<Rightarrow> string option" where
  \<comment> \<open>an element of a destructured array, \<open>None\<close> for \<open>undefined\<close>\<close>
  "nth_str xs i = (if i < length xs then Some (xs ! i) else None)"

definition tmpl :: "string option \<Rightarrow> string" where
  \<comment> \<open>a string or \<open>undefined\<close> inserted into a template literal\<close>
  "tmpl s = (case s of None \<Rightarrow> ''undefined'' | Some x \<Rightarrow> x)"

definition parseInt_opt :: "string option \<Rightarrow> int option" where
  "parseInt_opt s = (case s of None \<Rightarrow> None | Some x \<Rightarrow> parseInt x)"

definition month_bucket :: "string option \<Rightarrow> string \<times> number \<Rightarrow> bucket" where
  \<comment> \<open>an entry of the map of months as a data point\<close>
  "month_bucket src e =
     (let parts = split_chr CHR ''-'' (fst e); year = nth_str parts 0; mon = nth_str parts 1
      in \<lparr>monthKey = fst e, month = tmpl mon @ ''/'' @ tmpl year, total = snd e,
          date = new_Date (parseInt_opt year) (map_option (\<lambda>m. m - 1) (parseInt_opt mon)) 1,
          source = src\<rparr>)"

subsection \<open>MonthlyReport\<close>

definition monthly_row :: "runtime \<Rightarrow> string \<Rightarrow> string \<Rightarrow> row \<Rightarrow> (string \<times> number) option" where
  \<comment> \<open>the month key and the value a row adds, \<open>None\<close> where the callback returns early\<close>
  "monthly_row R dateColumn valueColumn r =
     (case row_date R (cell r dateColumn) of None \<Rightarrow> None
      | Some t \<Rightarrow>
          (case cell r valueColumn of VNumber v \<Rightarrow> Some (monthKey_of t, v) | _ \<Rightarrow> None))"

definition monthlyMap :: "runtime \<Rightarrow> string \<Rightarrow> string \<Rightarrow> row list \<Rightarrow> (string \<times> number) list" where
  "monthlyMap R dateColumn valueColumn rows = aggregate (monthly_row R dateColumn valueColumn) rows"

definition monthlyData ::
  "runtime \<Rightarrow> WorksheetData list \<Rightarrow> string option \<Rightarrow> string option \<Rightarrow> string option \<Rightarrow>
   bucket list" where
  "monthlyData R excelData selectedSheet dateColumn valueColumn =
     (case (selectedSheetData excelData selectedSheet, dateColumn, valueColumn) of
        (Some sheet, Some dc, Some vc) \<Rightarrow>
          if dc = [] \<or> vc = [] then []
          else sort_by date_after
                 (map (month_bucket (Some (fileName sheet))) (monthlyMap R dc vc (data sheet)))
      | _ \<Rightarrow> [])"

definition eligible_monthly :: "WorksheetData \<Rightarrow> bool" where
  "eligible_monthly sheet =
     (case data sheet of [] \<Rightarrow> False
      | first # _ \<Rightarrow>
          headers sheet \<noteq> [] \<and>
          list_ex (\<lambda>h. is_string (cell first h) \<or> is_Date (cell first h)) (headers sheet) \<and>
          list_ex (\<lambda>h. is_number (cell first h)) (headers sheet))"

definition eligibleSheets_monthly :: "WorksheetData list \<Rightarrow> WorksheetData list" where
  "eligibleSheets_monthly excelData = filter eligible_monthly excelData"

subsection \<open>ProjectReport\<close>

record datapoint =
  dp_date :: int
  dp_value :: number
  dp_month :: string
  dp_monthKey :: string

definition project_row ::
  "runtime \<Rightarrow> string \<Rightarrow> string \<Rightarrow> string \<Rightarrow> string \<Rightarrow> string option \<Rightarrow> row \<Rightarrow> datapoint option" where
  "project_row R projectColumn dateColumn valueColumn selectedProject selectedMonth r =
     (if cell r projectColumn \<noteq> VString selectedProject then None
      else case row_date R (cell r dateColumn) of None \<Rightarrow> None
      | Some t \<Rightarrow>
          if truthy_str selectedMonth \<and> Some (monthYear_of t) \<noteq> selectedMonth then None
          else (case cell r valueColumn of
                  VNumber v \<Rightarrow>
                    Some \<lparr>dp_date = t, dp_value = v, dp_month = monthYear_of t,
                          dp_monthKey = monthKey_of t\<rparr>
                | _ \<Rightarrow> None))"

definition point_bucket :: "datapoint \<Rightarrow> bucket" where
  "point_bucket p =
     \<lparr>monthKey = dp_monthKey p, month = dp_month p, total = dp_value p, date = Some (dp_date p),
      source = None\<rparr>"

definition projectData ::
  "runtime \<Rightarrow> WorksheetData list \<Rightarrow> string option \<Rightarrow> string option \<Rightarrow> string option \<Rightarrow>
   string option \<Rightarrow> string option \<Rightarrow> string option \<Rightarrow> bucket list" where
  "projectData R excelData selectedSheet projectColumn dateColumn valueColumn selectedProject
     selectedMonth =
     (case (selectedSheetData excelData selectedSheet, projectColumn, dateColumn, valueColumn,
            selectedProject) of
        (Some sheet, Some pc, Some dc, Some vc, Some proj) \<Rightarrow>
          if pc = [] \<or> dc = [] \<or> vc = [] \<or> proj = [] then []
          else
            let dataPoints = List.map_filter (project_row R pc dc vc proj selectedMonth) (data sheet)
            in if \<not> truthy_str selectedMonth
               then sort_by date_after
                      (map (month_bucket None)
                         (aggregate (\<lambda>p. Some (dp_monthKey p, dp_value p)) dataPoints))
               else sort_by date_after (map point_bucket dataPoints)
      | _ \<Rightarrow> [])"

definition eligible_project :: "WorksheetData \<Rightarrow> bool" where
  "eligible_project sheet =
     (case data sheet of [] \<Rightarrow> False
      | first # _ \<Rightarrow>
          headers sheet \<noteq> [] \<and>
          list_ex (\<lambda>h. is_string (cell first h)) (headers sheet) \<and>
          list_ex (\<lambda>h. is_string (cell first h) \<or> is_Date (cell first h)) (headers sheet) \<and>
          list_ex (\<lambda>h. is_number (cell first h)) (headers sheet))"

definition eligibleSheets_project :: "WorksheetData list \<Rightarrow> WorksheetData list" where
  "eligibleSheets_project excelData = filter eligible_project excelData"

subsection \<open>PurchaseOrdersReport\<close>

definition eligible_po :: "WorksheetData \<Rightarrow> bool" where
  "eligible_po sheet =
     (case data sheet of [] \<Rightarrow> False
      | first # _ \<Rightarrow>
          headers sheet \<noteq> [] \<and>
          list_ex (\<lambda>h. is_string (cell first h) \<or> is_number (cell first h)) (headers sheet) \<and>
          list_ex (\<lambda>h. is_string (cell first h) \<or> is_Date (cell first h)) (headers sheet) \<and>
          list_ex (\<lambda>h. is_number (cell first h)) (headers sheet))"

definition eligibleSheets_po :: "WorksheetData list \<Rightarrow> WorksheetData list" where
  "eligibleSheets_po excelData = filter eligible_po excelData"

definition po_header :: "string \<Rightarrow> bool" where
  \<comment> \<open>\<open>/order|po|purchase/i.test(header)\<close>\<close>
  "po_header h =
     (let l = toLowerCase h
      in str_includes ''order'' l \<or> str_includes ''po'' l \<or> str_includes ''purchase'' l)"

definition samples :: "WorksheetData \<Rightarrow> string \<Rightarrow> jsvalue list" where
  \<comment> \<open>the cells of a column in the first \<open>Math.min(5, sheet.data.length)\<close> rows\<close>
  "samples sheet h = map (\<lambda>r. cell r h) (take (min 5 (length (data sheet))) (data sheet))"

definition hasPo :: "WorksheetData \<Rightarrow> string \<Rightarrow> bool" where
  "hasPo sheet h =
     list_ex (\<lambda>v. (is_string v \<and> po_header h) \<or> (is_number v \<and> po_header h)) (samples sheet h)"

definition hasDate :: "runtime \<Rightarrow> WorksheetData \<Rightarrow> string \<Rightarrow> bool" where
  "hasDate R sheet h =
     list_ex (\<lambda>v. case v of VDate _ \<Rightarrow> True | VString s \<Rightarrow> Date_parse R s \<noteq> None | _ \<Rightarrow> False)
       (samples sheet h)"

definition hasNumber :: "WorksheetData \<Rightarrow> string \<Rightarrow> bool" where
  "hasNumber sheet h = list_ex is_number (samples sheet h)"

datatype error = TypeError

record po_columns =
  poColumns :: "string list"
  dateColumns :: "string list"
  valueColumns :: "string list"

definition columns :: "runtime \<Rightarrow> WorksheetData list \<Rightarrow> string option \<Rightarrow> error + po_columns" where
  \<comment> \<open>\<open>sheet.data[0][header]\<close> throws for a header of a sheet without rows\<close>
  "columns R excelData selectedSheet =
     (case selectedSheetData excelData selectedSheet of
        None \<Rightarrow> Inr \<lparr>poColumns = [], dateColumns = [], valueColumns = []\<rparr>
      | Some sheet \<Rightarrow>
          (case data sheet of
             [] \<Rightarrow> if headers sheet = [] then Inr \<lparr>poColumns = [], dateColumns = [], valueColumns = []\<rparr>
                   else Inl TypeError
           | first # _ \<Rightarrow>
               Inr \<lparr>poColumns = filter (\<lambda>h. hasPo sheet h \<or> (is_string (cell first h) \<and> po_header h))
                                  (headers sheet),
                    dateColumns = filter (hasDate R sheet) (headers sheet),
                    valueColumns = filter (\<lambda>h. hasNumber sheet h \<and> \<not> hasPo sheet h) (headers sheet)\<rparr>))"

definition before_date :: "int \<Rightarrow> jsdate \<Rightarrow> bool" where
  \<comment> \<open>\<open>date < d\<close> on time values, false against the Invalid Date\<close>
  "before_date t d = (case d of None \<Rightarrow> False | Some x \<Rightarrow> t < x)"

definition after_date :: "int \<Rightarrow> jsdate \<Rightarrow> bool" where
  "after_date t d = (case d of None \<Rightarrow> False | Some x \<Rightarrow> x < t)"

definition po_row ::
  "runtime \<Rightarrow> string \<Rightarrow> string \<Rightarrow> string \<Rightarrow> jsdate \<Rightarrow> jsdate \<Rightarrow> row \<Rightarrow> (string \<times> number) option" where
  "po_row R poColumn dateColumn valueColumn startDate endDate r =
     (case row_date R (cell r dateColumn) of None \<Rightarrow> None
      | Some t \<Rightarrow>
          if before_date t startDate \<or> after_date t endDate then None
          else if \<not> truthy (cell r poColumn) then None
          else (case cell r valueColumn of
                  VNumber v \<Rightarrow> Some (js_String R (cell r poColumn), v)
                | _ \<Rightarrow> None))"

definition startDate_of :: "string \<Rightarrow> jsdate" where
  "startDate_of selectedMonth =
     (let parts = split_chr CHR ''-'' selectedMonth
      in new_Date (parseInt_opt (nth_str parts 0))
           (map_option (\<lambda>m. m - 1) (parseInt_opt (nth_str parts 1))) 1)"

definition endDate_of :: "string \<Rightarrow> jsdate" where
  "endDate_of selectedMonth =
     (let parts = split_chr CHR ''-'' selectedMonth
      in new_Date (parseInt_opt (nth_str parts 0)) (parseInt_opt (nth_str parts 1)) 0)"

definition poMap ::
  "runtime \<Rightarrow> string \<Rightarrow> string \<Rightarrow> string \<Rightarrow> string \<Rightarrow> row list \<Rightarrow> (string \<times> number) list" where
  "poMap R poColumn dateColumn valueColumn selectedMonth rows =
     aggregate (po_row R poColumn dateColumn valueColumn (startDate_of selectedMonth)
                  (endDate_of selectedMonth)) rows"




section \<open>The page (pages/Index.tsx) and the uploader (FileUploader.tsx)\<close>

record app_state =
  excelData :: "WorksheetData list"
  activeFile :: "string option"
  fileNames :: "string list"

datatype effect =
    setExcelData "WorksheetData list"
  | setActiveFile "string option"
  | setFileNames "string list"
  | toast_error string
  | toast_success string
  | read_workbook string  \<comment> \<open>\<open>read(data)\<close> on the bytes of the file of that name\<close>

definition handleExcelData :: "app_state \<Rightarrow> WorksheetData list \<Rightarrow> string \<Rightarrow> effect list" where
  \<comment> \<open>what a call does, in order; the state is the one of the render that made the callback\<close>
  "handleExcelData st dat fname =
     (if fname \<in> set (fileNames st) then [toast_error (''File '' @ fname @ '' is already loaded'')]
      else [setExcelData (excelData st @ dat), setFileNames (fileNames st @ [fname])]
           @ (if \<not> truthy_str (activeFile st)
              then [setActiveFile (case dat of [] \<Rightarrow> None
                                   | d # _ \<Rightarrow> if name d = [] then None else Some (name d))]
              else [])
           @ [toast_success (''Successfully loaded '' @ fname)])"

fun apply_effect :: "app_state \<Rightarrow> effect \<Rightarrow> app_state" where
  "apply_effect st (setExcelData v) = st\<lparr>excelData := v\<rparr>"
| "apply_effect st (setActiveFile v) = st\<lparr>activeFile := v\<rparr>"
| "apply_effect st (setFileNames v) = st\<lparr>fileNames := v\<rparr>"
| "apply_effect st _ = st"

definition getActiveWorksheet :: "app_state \<Rightarrow> WorksheetData option" where
  "getActiveWorksheet st = find (\<lambda>sheet. Some (name sheet) = activeFile st) (excelData st)"

definition select_onChange :: "app_state \<Rightarrow> nat \<Rightarrow> effect list" where
  \<comment> \<open>the user picks the option of index \<open>i\<close> of the worksheet selector; the value of an
      option is \<open>sheet.name\<close>\<close>
  "select_onChange st i =
     (if i < length (excelData st) then [setActiveFile (Some (name (excelData st ! i)))] else [])"

record sheet_json =
  sheetName :: string
  jsonData :: "(string \<times> jsvalue) list list"
  raw :: "jsvalue list list"

record js_file =
  file_name :: string
  workbook :: "sheet_json list option"  \<comment> \<open>what the decoder makes of the bytes; \<open>None\<close>: it throws\<close>

definition processRow :: "runtime \<Rightarrow> string list \<Rightarrow> (string \<times> jsvalue) list \<Rightarrow> row" where
  "processRow R hs obj =
     map (\<lambda>h. let v = (case map_of obj h of None \<Rightarrow> VUndefined | Some x \<Rightarrow> x)
            in (h, \<lparr>cell_value = v,
                    formatted = Some (if v \<noteq> VNull \<and> v \<noteq> VUndefined then js_String R v else [])\<rparr>))
       hs"

definition processSheet :: "runtime \<Rightarrow> string \<Rightarrow> sheet_json \<Rightarrow> WorksheetData list" where
  "processSheet R fname s =
     (case jsonData s of [] \<Rightarrow> []
      | first # _ \<Rightarrow>
          [\<lparr>name = sheetName s, fileName = fname, headers = map fst first,
            data = map (processRow R (map fst first)) (jsonData s), rawData = raw s\<rparr>])"

definition processExcelFile :: "runtime \<Rightarrow> js_file \<Rightarrow> WorksheetData list option \<times> effect list" where
  "processExcelFile R f =
     (case workbook f of
        None \<Rightarrow> (None, [read_workbook (file_name f),
                        toast_error (''Error processing file '' @ file_name f @ ''. Please try again.'')])
      | Some sheets \<Rightarrow>
          let worksheetsData = concat (map (processSheet R (file_name f)) sheets)
          in if worksheetsData = []
             then (None, [read_workbook (file_name f),
                          toast_error (''No valid data found in the file: '' @ file_name f)])
             else (Some worksheetsData, [read_workbook (file_name f)]))"

definition fileExtension :: "string \<Rightarrow> string" where
  \<comment> \<open>\<open>name.split('.').pop()?.toLowerCase()\<close>\<close>
  "fileExtension n = toLowerCase (last (split_chr CHR ''.'' n))"

definition valid_extension :: "js_file \<Rightarrow> bool" where
  "valid_extension f = (fileExtension (file_name f) \<in> {''xlsx'', ''xls'', ''csv''})"

definition process_one :: "runtime \<Rightarrow> app_state \<Rightarrow> js_file \<Rightarrow> effect list" where
  "process_one R st f =
     (case processExcelFile R f of
        (None, es) \<Rightarrow> es
      | (Some ws, es) \<Rightarrow>
          es @ handleExcelData st ws (file_name f)
             @ [toast_success (''Successfully loaded '' @ file_name f)])"

definition handleFileChange :: "runtime \<Rightarrow> app_state \<Rightarrow> js_file list \<Rightarrow> effect list" where
  \<comment> \<open>\<open>st\<close> is the state of the render whose \<open>onDataExtracted\<close> the handler holds\<close>
  "handleFileChange R st files =
     (if files = [] then []
      else if length files > 2 then [toast_error ''Please select a maximum of 2 files'']
      else case find (\<lambda>f. \<not> valid_extension f) files of
             Some f \<Rightarrow> [toast_error (''Invalid file type: '' @ file_name f
                                      @ ''. Please upload Excel or CSV files only'')]
           | None \<Rightarrow> concat (map (process_one R st) files))"

definition upload :: "runtime \<Rightarrow> app_state \<Rightarrow> js_file list \<Rightarrow> app_state" where
  \<comment> \<open>the state after the upload action\<close>
  "upload R st files = foldl apply_effect st (handleFileChange R st files)"

section \<open>The rules of the specification, in its words\<close>

definition spec_date_like :: "runtime \<Rightarrow> jsvalue \<Rightarrow> bool" where
  \<comment> \<open>date-like: a timestamp, or a string that parses to a valid date\<close>
  "spec_date_like R v =
     (case v of VDate _ \<Rightarrow> True | VString s \<Rightarrow> Date_parse R s \<noteq> None | _ \<Rightarrow> False)"

definition spec_eligible_monthly :: "runtime \<Rightarrow> WorksheetData \<Rightarrow> bool" where
  \<comment> \<open>with the first data row only: some column is date-like and some column is numeric\<close>
  "spec_eligible_monthly R sheet =
     (case data sheet of [] \<Rightarrow> False
      | first # _ \<Rightarrow>
          list_ex (\<lambda>h. spec_date_like R (cell first h)) (headers sheet) \<and>
          list_ex (\<lambda>h. is_number (cell first h)) (headers sheet))"

definition spec_in_month :: "int \<Rightarrow> int \<Rightarrow> int \<Rightarrow> bool" where
  \<comment> \<open>within the window from the first day to the last day of month \<open>m\<close> (from 1) of year
      \<open>y\<close>, the whole last day included\<close>
  "spec_in_month y m t = (MakeDay y (m - 1) 1 * msPerDay \<le> t \<and> t < MakeDay y m 1 * msPerDay)"

definition spec_non_empty :: "jsvalue \<Rightarrow> bool" where
  "spec_non_empty v = (v \<noteq> VNull \<and> v \<noteq> VUndefined \<and> v \<noteq> VString [])"

definition spec_po_contributes :: "runtime \<Rightarrow> string \<Rightarrow> string \<Rightarrow> int \<Rightarrow> int \<Rightarrow> row \<Rightarrow> bool" where
  \<comment> \<open>the date cell yields a valid date within the window of the selected month, and the
      order-identifier cell has a non-empty value\<close>
  "spec_po_contributes R poColumn dateColumn y m r =
     (case row_date R (cell r dateColumn) of None \<Rightarrow> False
      | Some t \<Rightarrow> spec_in_month y m t \<and> spec_non_empty (cell r poColumn))"

definition spec_project_match ::
  "runtime \<Rightarrow> string \<Rightarrow> string \<Rightarrow> string \<Rightarrow> string \<Rightarrow> string \<Rightarrow> row \<Rightarrow> (int \<times> number) option" where
  \<comment> \<open>a matching row of the detail view: the project cell is the selected project, the date
      cell yields a date of the selected month, the value cell is a number; the date and the
      value of such a row\<close>
  "spec_project_match R projectColumn dateColumn valueColumn proj sm r =
     (case (cell r projectColumn, row_date R (cell r dateColumn), cell r valueColumn) of
        (VString p, Some t, VNumber v) \<Rightarrow>
          if p = proj \<and> monthYear_of t = sm then Some (t, v) else None
      | _ \<Rightarrow> None)"

section \<open>Totals and exact sums\<close>

definition values_of :: "('a \<Rightarrow> (string \<times> number) option) \<Rightarrow> 'a list \<Rightarrow> string \<Rightarrow> number list" where
  \<comment> \<open>the values the elements add under a key, in the order of the elements\<close>
  "values_of f xs k = map snd (filter (\<lambda>e. fst e = k) (List.map_filter f xs))"

definition js_sum :: "number list \<Rightarrow> number option" where
  \<comment> \<open>the running total of a bucket: the first value, then \<open>+\<close> for every further one\<close>
  "js_sum vs = (case vs of [] \<Rightarrow> None | v # rest \<Rightarrow> Some (foldl js_add v rest))"

definition exact_column :: "string \<Rightarrow> row list \<Rightarrow> bool" where
  \<comment> \<open>every number of the column is an integer, and their absolute values add up to less
      than \<open>2^53\<close>: no sum of them is rounded\<close>
  "exact_column vc rows =
     (list_all (\<lambda>r. case cell r vc of VNumber v \<Rightarrow> of_int \<lfloor>v\<rfloor> = v | _ \<Rightarrow> True) rows \<and>
      (\<Sum>r\<leftarrow>rows. case cell r vc of VNumber v \<Rightarrow> \<bar>v\<bar> | _ \<Rightarrow> 0) < 2 ^ 53)"

fun unrounded_from :: "number \<Rightarrow> number list \<Rightarrow> bool" where
  \<comment> \<open>from the total \<open>acc\<close> on, every addition of the next value gives the exact sum\<close>
  "unrounded_from acc [] = True"
| "unrounded_from acc (v # vs) = (js_add acc v = acc + v \<and> unrounded_from (acc + v) vs)"

definition unrounded :: "number list \<Rightarrow> bool" where
  \<comment> \<open>no addition of the running total of these values, in this order, is rounded\<close>
  "unrounded vs = (case vs of [] \<Rightarrow> True | v # rest \<Rightarrow> unrounded_from v rest)"

definition weight :: "('a \<Rightarrow> (string \<times> number) option) \<Rightarrow> 'a \<Rightarrow> rat" where
  \<comment> \<open>the absolute value an element adds, 0 where it returns early\<close>
  "weight f x = (case f x of None \<Rightarrow> 0 | Some (k, v) \<Rightarrow> \<bar>v\<bar>)"

section \<open>Example data\<close>

definition parse_iso_date :: "string \<Rightarrow> int option" where
  \<comment> \<open>\<open>Date.parse\<close> on the date-only form \<open>YYYY-MM-DD\<close> of ECMA-262, in a zone without
      offset; every other string is rejected here\<close>
  "parse_iso_date s =
     (if length s = 10 \<and> s ! 4 = CHR ''-'' \<and> s ! 7 = CHR ''-'' \<and> list_all is_digit (take 4 s) \<and>
         list_all is_digit (take 2 (drop 5 s)) \<and> list_all is_digit (drop 8 s)
      then let y = int (digits_val (take 4 s)); m = int (digits_val (take 2 (drop 5 s)));
               d = int (digits_val (drop 8 s))
           in if 1 \<le> m \<and> m \<le> 12 \<and> 1 \<le> d \<and> d \<le> MakeDay y m 1 - MakeDay y (m - 1) 1
              then Some (MakeDay y (m - 1) d * msPerDay) else None
      else None)"

definition example_runtime :: runtime where
  \<comment> \<open>dates are read in the form \<open>YYYY-MM-DD\<close> and integral numbers are printed in decimal;
      the examples print no other number and no date\<close>
  "example_runtime =
     \<lparr>Date_parse = parse_iso_date,
      Number_toString = (\<lambda>x. if of_int \<lfloor>x\<rfloor> = x then show_int \<lfloor>x\<rfloor> else []),
      Date_toString = (\<lambda>t. []), Date_now = 0\<rparr>"

definition mk_row :: "(string \<times> jsvalue) list \<Rightarrow> row" where
  "mk_row kvs = map (\<lambda>(h, v). (h, \<lparr>cell_value = v, formatted = None\<rparr>)) kvs"

definition mk_sheet :: "string \<Rightarrow> string \<Rightarrow> string list \<Rightarrow> (string \<times> jsvalue) list list \<Rightarrow> WorksheetData" where
  "mk_sheet f n hs rs = \<lparr>name = n, fileName = f, headers = hs, data = map mk_row rs, rawData = []\<rparr>"

definition text_sheet :: WorksheetData where
  \<comment> \<open>a first row with a name that is no date and an amount\<close>
  "text_sheet =
     mk_sheet ''a.xlsx'' ''Sheet1'' [''Name'', ''Amount'']
       [[(''Name'', VString ''abc''), (''Amount'', VNumber 5)]]"

definition sheet_a :: WorksheetData where
  "sheet_a =
     mk_sheet ''a.xlsx'' ''Sheet1'' [''Date'', ''Amount'']
       [[(''Date'', VDate 1705276800000), (''Amount'', VNumber 100)]]"

definition empty_state :: app_state where
  "empty_state = \<lparr>excelData = [], activeFile = None, fileNames = []\<rparr>"

definition file_of :: "string \<Rightarrow> js_file" where
  \<comment> \<open>a file with one sheet of one row\<close>
  "file_of n =
     \<lparr>file_name = n,
      workbook = Some [\<lparr>sheetName = ''Sheet1'', jsonData = [[(''Amount'', VNumber 5)]], raw = []\<rparr>]\<rparr>"

definition two_files :: app_state where
  \<comment> \<open>two files are loaded, one after the other; each has a sheet named Sheet1\<close>
  "two_files =
     upload example_runtime (upload example_runtime empty_state [file_of ''a.xlsx''])
       [file_of ''b.xlsx'']"

definition order_sheet :: WorksheetData where
  \<comment> \<open>order numbers are numeric\<close>
  "order_sheet =
     mk_sheet ''orders.xlsx'' ''Orders'' [''Order No'', ''Date'', ''Amount'']
       [[(''Order No'', VNumber 1001), (''Date'', VString ''2024-01-10''), (''Amount'', VNumber 200)],
        [(''Order No'', VNumber 1002), (''Date'', VString ''2024-01-20''), (''Amount'', VNumber 500)]]"

definition monthly_sheet :: WorksheetData where
  \<comment> \<open>rows dated 2024-01-15, 2024-01-20 and 2024-02-01 (at 00:00) with the values 100, 50, 30\<close>
  "monthly_sheet =
     mk_sheet ''a.xlsx'' ''Sheet1'' [''Date'', ''Amount'']
       [[(''Date'', VDate 1705276800000), (''Amount'', VNumber 100)],
        [(''Date'', VDate 1705708800000), (''Amount'', VNumber 50)],
        [(''Date'', VDate 1706745600000), (''Amount'', VNumber 30)]]"

definition early_years_sheet :: WorksheetData where
  \<comment> \<open>rows dated 0050-03-15 and 1940-06-01 (at 00:00) with the values 10 and 20\<close>
  "early_years_sheet =
     mk_sheet ''old.xlsx'' ''Sheet1'' [''Date'', ''Amount'']
       [[(''Date'', VDate (- 60582988800000)), (''Amount'', VNumber 10)],
        [(''Date'', VDate (- 933638400000)), (''Amount'', VNumber 20)]]"

definition string_dates_sheet :: WorksheetData where
  \<comment> \<open>dates as strings; the second row has no date and the third no number\<close>
  "string_dates_sheet =
     mk_sheet ''b.xlsx'' ''Data'' [''Day'', ''Amount'']
       [[(''Day'', VString ''2024-03-05''), (''Amount'', VNumber 7)],
        [(''Day'', VString ''n/a''), (''Amount'', VNumber 1)],
        [(''Day'', VString ''2023-12-31''), (''Amount'', VString ''x'')],
        [(''Day'', VString ''2023-12-31''), (''Amount'', VNumber 2)],
        [(''Day'', VString ''2024-03-20''), (''Amount'', VNumber 8)]]"


definition text_value_row :: row where
  \<comment> \<open>an order of 2024-01-15 whose value cell is a string\<close>
  "text_value_row =
     mk_row [(''PO'', VString ''PO-1''), (''Date'', VString ''2024-01-15''),
             (''Amount'', VString ''n/a'')]"

definition last_day_row :: row where
  \<comment> \<open>an order of 2024-01-31 at 10:00\<close>
  "last_day_row =
     mk_row [(''PO'', VString ''PO-2''), (''Date'', VDate 1706695200000), (''Amount'', VNumber 5)]"

definition year50_row :: row where
  \<comment> \<open>an order of 0050-01-10 at 00:00\<close>
  "year50_row =
     mk_row [(''PO'', VString ''PO-4''), (''Date'', VDate (- 60588518400000)), (''Amount'', VNumber 5)]"

definition mid_month_row :: row where
  "mid_month_row =
     mk_row [(''PO'', VString ''PO-3''), (''Date'', VString ''2024-01-15''), (''Amount'', VNumber 5)]"

definition project_sheet :: WorksheetData where
  "project_sheet =
     mk_sheet ''p.xlsx'' ''Costs'' [''Project'', ''Date'', ''Amount'']
       [[(''Project'', VString ''Alpha''), (''Date'', VString ''2024-01-20''), (''Amount'', VNumber 50)],
        [(''Project'', VString ''Beta''), (''Date'', VString ''2024-01-16''), (''Amount'', VNumber 7)],
        [(''Project'', VString ''Alpha''), (''Date'', VString ''2024-01-15''), (''Amount'', VNumber 100)],
        [(''Project'', VString ''Alpha''), (''Date'', VString ''2024-02-01''), (''Amount'', VNumber 30)]]"

definition big_row :: row where
  \<comment> \<open>the value is \<open>2^53\<close>\<close>
  "big_row = mk_row [(''Date'', VDate 1705276800000), (''Amount'', VNumber 9007199254740992)]"

definition neg_big_row :: row where
  \<comment> \<open>the value is \<open>- 2^53\<close>\<close>
  "neg_big_row = mk_row [(''Date'', VDate 1705276800000), (''Amount'', VNumber (- 9007199254740992))]"

definition unit_row :: row where
  "unit_row = mk_row [(''Date'', VDate 1705708800000), (''Amount'', VNumber 1)]"

section \<open>Strings: facts\<close>

lemma digit_of_is_digit: "n < 10 \<Longrightarrow> is_digit (digit_of n)"
proof -
  assume "n < 10"
  then have "n \<in> {0, 1, 2, 3, 4, 5, 6, 7, 8, 9}" by auto
  then show ?thesis by (auto simp: is_digit_def digit_of_def)
qed

lemma digit_val_digit_of: "n < 10 \<Longrightarrow> digit_val (digit_of n) = n"
proof -
  assume "n < 10"
  then have "n \<in> {0, 1, 2, 3, 4, 5, 6, 7, 8, 9}" by auto
  then show ?thesis by (auto simp: digit_val_def digit_of_def)
qed

lemma is_digit_not_sep: "is_digit c \<Longrightarrow> c \<noteq> CHR ''-'' \<and> c \<noteq> CHR ''+'' \<and> \<not> is_space c"
  by (auto simp: is_digit_def is_space_def)

lemma show_nat_digits: "list_all is_digit (show_nat n)"
proof (induction n rule: show_nat.induct)
  case (1 n)
  show ?case
  proof (cases "n < 10")
    case True
    then show ?thesis by (subst show_nat.simps) (simp add: digit_of_is_digit)
  next
    case False
    with 1 show ?thesis by (subst show_nat.simps) (simp add: digit_of_is_digit)
  qed
qed

lemma show_nat_not_Nil: "show_nat n \<noteq> []"
  by (subst show_nat.simps) simp

lemma digits_val_append: "digits_val (xs @ [c]) = 10 * digits_val xs + digit_val c"
  by (simp add: digits_val_def)

lemma digits_val_show_nat: "digits_val (show_nat n) = n"
proof (induction n rule: show_nat.induct)
  case (1 n)
  show ?case
  proof (cases "n < 10")
    case True
    then show ?thesis by (subst show_nat.simps) (simp add: digits_val_def digit_val_digit_of)
  next
    case False
    with 1 show ?thesis
      by (subst show_nat.simps) (simp add: digits_val_append digit_val_digit_of)
  qed
qed

lemma parseInt_digits:
  assumes "list_all is_digit ds" and "ds \<noteq> []"
  shows "parseInt ds = Some (int (digits_val ds))"
proof -
  from assms obtain c cs where ds: "ds = c # cs" by (cases ds) auto
  with assms have c: "is_digit c" by simp
  have dw: "dropWhile is_space ds = ds"
    using c is_digit_not_sep [OF c] by (simp add: ds)
  have tw: "takeWhile is_digit ds = ds"
    using assms(1) by (simp add: list_all_iff)
  have "parseInt ds = (if ds = [] then None else Some ((if c = CHR ''-'' then - 1 else 1) * int (digits_val ds)))"
    unfolding parseInt_def dw Let_def using is_digit_not_sep [OF c] tw
    by (simp add: ds)
  then show ?thesis
    using is_digit_not_sep [OF c] assms(2) by simp
qed

lemma split_chr_no_sep: "c \<notin> set s \<Longrightarrow> split_chr c s = [s]"
  by (induction s) auto

lemma split_chr_append: "c \<notin> set a \<Longrightarrow> split_chr c (a @ c # b) = a # split_chr c b"
  by (induction a) (auto split: list.splits)

lemma digits_no_dash: "list_all is_digit s \<Longrightarrow> CHR ''-'' \<notin> set s"
  by (auto simp: list_all_iff dest: is_digit_not_sep)

lemma digits_val_zero_Cons: "digits_val (CHR ''0'' # ds) = digits_val ds"
  by (simp add: digits_val_def digit_val_def)

lemma padStart2_digits:
  assumes "list_all is_digit s" and "s \<noteq> []"
  shows "list_all is_digit (padStart2 s) \<and> padStart2 s \<noteq> [] \<and> digits_val (padStart2 s) = digits_val s"
proof (cases "length s < 2")
  case True
  with assms(2) have "length s = 1" by (cases s) auto
  then have "padStart2 s = CHR ''0'' # s" by (simp add: padStart2_def)
  with assms show ?thesis by (simp add: digits_val_zero_Cons is_digit_def)
next
  case False
  then have "padStart2 s = s" by (simp add: padStart2_def)
  with assms show ?thesis by simp
qed

lemma show_int_nonneg: "0 \<le> i \<Longrightarrow> show_int i = show_nat (nat i)"
  by (simp add: show_int_def)

text \<open>The month key \<open>year-month\<close> of a year from 0 on splits into its two numbers again.\<close>

lemma key_parts:
  assumes "0 \<le> y" and "0 \<le> m"
  shows "split_chr CHR ''-'' (show_int y @ ''-'' @ padStart2 (show_int m)) = [show_int y, padStart2 (show_int m)]"
    and "parseInt (show_int y) = Some y"
    and "parseInt (padStart2 (show_int m)) = Some m"
proof -
  have dy: "list_all is_digit (show_int y)" and ny: "show_int y \<noteq> []"
    using assms(1) by (simp_all add: show_int_nonneg show_nat_digits show_nat_not_Nil)
  have dm0: "list_all is_digit (show_int m)" and nm0: "show_int m \<noteq> []"
    using assms(2) by (simp_all add: show_int_nonneg show_nat_digits show_nat_not_Nil)
  note pm = padStart2_digits [OF dm0 nm0]
  show "split_chr CHR ''-'' (show_int y @ ''-'' @ padStart2 (show_int m)) = [show_int y, padStart2 (show_int m)]"
    using split_chr_append [OF digits_no_dash [OF dy], of "padStart2 (show_int m)"]
      split_chr_no_sep [OF digits_no_dash, of "padStart2 (show_int m)"] pm
    by simp
  show "parseInt (show_int y) = Some y"
    using parseInt_digits [OF dy ny] assms(1) by (simp add: show_int_nonneg digits_val_show_nat)
  show "parseInt (padStart2 (show_int m)) = Some m"
    using parseInt_digits [of "padStart2 (show_int m)"] pm assms(2)
    by (simp add: show_int_nonneg digits_val_show_nat)
qed

lemma getMonth_range: "0 \<le> getMonth t \<and> getMonth t \<le> 11"
  by (simp add: getMonth_def MonthFromTime_def Let_def)

lemma month_bucket_key:
  assumes "0 \<le> getFullYear t"
  shows "month_bucket src (monthKey_of t, v) =
           \<lparr>monthKey = monthKey_of t, month = monthYear_of t, total = v,
            date = new_Date (Some (getFullYear t)) (Some (getMonth t)) 1, source = src\<rparr>"
proof -
  have m: "0 \<le> getMonth t + 1" using getMonth_range [of t] by simp
  note kp = key_parts [OF assms m]
  have sp: "split_chr CHR ''-'' (monthKey_of t) = [show_int (getFullYear t), month2 t]"
    using kp(1) by (simp add: monthKey_of_def month2_def)
  have pm: "parseInt (month2 t) = Some (getMonth t + 1)"
    using kp(3) by (simp add: month2_def)
  show ?thesis
    by (simp add: month_bucket_def sp pm kp(2) monthYear_of_def nth_str_def tmpl_def
        parseInt_opt_def Let_def)
qed

section \<open>Sorting: facts\<close>

lemma mset_insert_by: "mset (insert_by af x xs) = add_mset x (mset xs)"
  by (induction xs) auto

lemma mset_sort_by: "mset (sort_by af xs) = mset xs"
  by (induction xs) (auto simp: sort_by_def mset_insert_by)

lemma set_sort_by: "set (sort_by af xs) = set xs"
  using mset_sort_by [of af xs] by (metis set_mset_mset)

lemma length_sort_by: "length (sort_by af xs) = length xs"
  using mset_sort_by [of af xs] by (metis size_mset)

lemma sorted_insert_by:
  fixes key :: "'a \<Rightarrow> 'k::linorder"
  assumes "\<forall>y \<in> set xs. af x y \<longleftrightarrow> key y < key x" and "sorted (map key xs)"
  shows "sorted (map key (insert_by af x xs))"
  using assms
proof (induction xs)
  case Nil
  then show ?case by simp
next
  case (Cons y ys)
  have "set (insert_by af x ys) = insert x (set ys)"
    using mset_insert_by [of af x ys] by (metis set_mset_add_mset_insert set_mset_mset)
  with Cons show ?case by (auto simp: not_less)
qed

lemma sorted_sort_by:
  fixes key :: "'a \<Rightarrow> 'k::linorder"
  assumes "\<forall>x \<in> set xs. \<forall>y \<in> set xs. af x y \<longleftrightarrow> key y < key x"
  shows "sorted (map key (sort_by af xs))"
  using assms
proof (induction xs)
  case Nil
  then show ?case by (simp add: sort_by_def)
next
  case (Cons x xs)
  have s: "sort_by af (x # xs) = insert_by af x (sort_by af xs)"
    by (simp add: sort_by_def)
  from Cons have "sorted (map key (sort_by af xs))" by simp
  moreover from Cons.prems have "\<forall>y \<in> set (sort_by af xs). af x y \<longleftrightarrow> key y < key x"
    by (simp add: set_sort_by)
  ultimately show ?case
    unfolding s by (rule sorted_insert_by [rotated])
qed

section \<open>The loop over the rows: facts\<close>

lemma map_of_add_to:
  "map_of (add_to k v m) =
     (map_of m)(k \<mapsto> (case map_of m k of None \<Rightarrow> v | Some old \<Rightarrow> js_add old v))"
  by (simp add: add_to_def update_conv' split: option.splits)

lemma keys_add_to: "fst ` set (add_to k v m) = insert k (fst ` set m)"
proof -
  have "dom (map_of (add_to k v m)) = insert k (dom (map_of m))"
    by (simp add: map_of_add_to)
  then show ?thesis by (simp add: dom_map_of_conv_image_fst)
qed

lemma distinct_add_to: "distinct (map fst m) \<Longrightarrow> distinct (map fst (add_to k v m))"
  by (simp add: add_to_def distinct_update split: option.splits)

lemma keys_foldl:
  "fst ` set (foldl (agg_step f) m xs) = fst ` set m \<union> {k. \<exists>x \<in> set xs. \<exists>v. f x = Some (k, v)}"
proof (induction xs arbitrary: m)
  case Nil
  then show ?case by simp
next
  case (Cons x xs)
  have "fst ` set (agg_step f m x) =
          fst ` set m \<union> {k. \<exists>v. f x = Some (k, v)}"
  proof (cases "f x")
    case None
    then show ?thesis by (simp add: agg_step_def)
  next
    case (Some e)
    obtain k' v where "e = (k', v)" by (cases e)
    with Some show ?thesis by (simp add: agg_step_def keys_add_to)
  qed
  then show ?case
    by (simp add: Cons) blast
qed

lemma distinct_agg_step: "distinct (map fst m) \<Longrightarrow> distinct (map fst (agg_step f m x))"
  by (auto simp: agg_step_def distinct_add_to split: option.splits)

lemma distinct_foldl:
  "distinct (map fst m) \<Longrightarrow> distinct (map fst (foldl (agg_step f) m xs))"
  by (induction xs arbitrary: m) (simp_all add: distinct_agg_step)

lemma values_of_Cons:
  "values_of f (x # xs) k =
     (case f x of None \<Rightarrow> values_of f xs k
      | Some (k', v) \<Rightarrow> if k' = k then v # values_of f xs k else values_of f xs k)"
  by (auto simp: values_of_def split: option.splits)

lemma lookup_foldl:
  "map_of (foldl (agg_step f) m xs) k =
     (case map_of m k of None \<Rightarrow> js_sum (values_of f xs k)
      | Some a \<Rightarrow> Some (foldl js_add a (values_of f xs k)))"
proof (induction xs arbitrary: m)
  case Nil
  then show ?case by (simp add: values_of_def js_sum_def split: option.splits)
next
  case (Cons x xs)
  have step: "map_of (foldl (agg_step f) m (x # xs)) k =
      (case map_of (agg_step f m x) k of None \<Rightarrow> js_sum (values_of f xs k)
       | Some a \<Rightarrow> Some (foldl js_add a (values_of f xs k)))"
    by (simp add: Cons)
  show ?case
  proof (cases "f x")
    case None
    then show ?thesis unfolding step by (simp add: agg_step_def values_of_Cons split: option.splits)
  next
    case (Some e)
    obtain k' v where e: "e = (k', v)" by (cases e)
    show ?thesis
      unfolding step
      by (simp add: agg_step_def Some e values_of_Cons map_of_add_to js_sum_def
          split: option.splits)
  qed
qed

lemma keys_aggregate:
  "fst ` set (aggregate f xs) = {k. \<exists>x \<in> set xs. \<exists>v. f x = Some (k, v)}"
  by (simp add: aggregate_def keys_foldl)

lemma distinct_aggregate: "distinct (map fst (aggregate f xs))"
  by (simp add: aggregate_def distinct_foldl)

lemma lookup_aggregate: "map_of (aggregate f xs) k = js_sum (values_of f xs k)"
  by (simp add: aggregate_def lookup_foldl)

lemma total_aggregate:
  assumes "(k, s) \<in> set (aggregate f xs)"
  shows "js_sum (values_of f xs k) = Some s"
  using assms lookup_aggregate [of f xs k] distinct_aggregate [of f xs] by simp

section \<open>Numbers: facts\<close>

lemma bit_length_le:
  "0 \<le> n \<Longrightarrow> n < 2 ^ k \<Longrightarrow> bit_length n \<le> int k"
proof (induction k arbitrary: n)
  case 0
  then have "n = 0" by simp
  then show ?case by (subst bit_length.simps) simp
next
  case (Suc k)
  show ?case
  proof (cases "0 < n")
    case False
    then show ?thesis by (subst bit_length.simps) simp
  next
    case True
    from Suc.prems have "n div 2 < 2 ^ k" by simp
    moreover from True have "0 \<le> n div 2" by simp
    ultimately have "bit_length (n div 2) \<le> int k" by (rule Suc.IH [rotated])
    with True show ?thesis by (subst bit_length.simps) simp
  qed
qed

lemma bit_length_one: "bit_length 1 = 1"
proof -
  have "bit_length 0 = 0" by (subst bit_length.simps) simp
  then show ?thesis by (subst bit_length.simps) simp
qed

lemma quotient_of_of_int: "quotient_of (of_int k) = (k, 1)"
  by (simp add: of_int_rat quotient_of_Fract)

lemma floor_log2_int:
  assumes "n \<noteq> 0" and "\<bar>n\<bar> < 2 ^ 53"
  shows "floor_log2 (of_int n) \<le> 52"
proof -
  have "\<bar>of_int n :: rat\<bar> = of_int \<bar>n\<bar>" by simp
  then have q: "quotient_of \<bar>of_int n :: rat\<bar> = (\<bar>n\<bar>, 1)"
    by (simp only: quotient_of_of_int)
  have "0 \<le> \<bar>n\<bar>" by simp
  from bit_length_le [OF this assms(2)] have "bit_length \<bar>n\<bar> \<le> 53" by simp
  then show ?thesis
    unfolding floor_log2_def q by (simp add: bit_length_one Let_def)
qed

lemma round_half_even_int: "round_half_even (of_int k) = k"
  by (simp add: round_half_even_def)

lemma round_binary64_int:
  assumes "\<bar>n\<bar> < 2 ^ 53"
  shows "round_binary64 (of_int n) = of_int n"
proof (cases "n = 0")
  case True
  then show ?thesis by (simp add: round_binary64_def)
next
  case False
  define e where "e = floor_log2 (of_int n)"
  from floor_log2_int [OF False assms] have e: "e \<le> 52" by (simp add: e_def)
  define j where "j = nat (52 - e)"
  from e have u: "(2::rat) powi (e - 52) = 1 / 2 ^ j"
    by (simp add: j_def power_int_def field_simps)
  have "(of_int n :: rat) / (1 / 2 ^ j) = of_int (n * 2 ^ j)"
    by simp
  then have "round_half_even (of_int n / (1 / 2 ^ j)) = n * 2 ^ j"
    by (simp only: round_half_even_int)
  then show ?thesis
    using False by (simp add: round_binary64_def e_def [symmetric] u Let_def)
qed

lemma js_add_int:
  assumes "a \<in> \<int>" and "b \<in> \<int>" and "\<bar>a\<bar> + \<bar>b\<bar> < 2 ^ 53"
  shows "js_add a b = a + b"
proof -
  from assms obtain i j where ij: "a = of_int i" "b = of_int j"
    by (auto elim!: Ints_cases)
  with assms(3) have "\<bar>of_int i :: rat\<bar> + \<bar>of_int j\<bar> < 2 ^ 53" by simp
  then have "(of_int (\<bar>i\<bar> + \<bar>j\<bar>) :: rat) < of_int (2 ^ 53)" by simp
  then have "\<bar>i\<bar> + \<bar>j\<bar> < 2 ^ 53" by (simp only: of_int_less_iff)
  then have "\<bar>i + j\<bar> < 2 ^ 53" by linarith
  from round_binary64_int [OF this] show ?thesis
    by (simp add: js_add_def ij)
qed

lemma foldl_js_add_exact:
  assumes "a \<in> \<int>" and "\<forall>v \<in> set vs. v \<in> \<int>" and "\<bar>a\<bar> + (\<Sum>v\<leftarrow>vs. \<bar>v\<bar>) < 2 ^ 53"
  shows "foldl js_add a vs = a + sum_list vs"
  using assms
proof (induction vs arbitrary: a)
  case Nil
  then show ?case by simp
next
  case (Cons v vs)
  have nn: "0 \<le> (\<Sum>v\<leftarrow>vs. \<bar>v\<bar>)"
    by (rule sum_list_nonneg) auto
  from Cons.prems nn have "\<bar>a\<bar> + \<bar>v\<bar> < 2 ^ 53" by simp
  with Cons.prems have s: "js_add a v = a + v" by (intro js_add_int) simp_all
  have "foldl js_add (a + v) vs = (a + v) + sum_list vs"
  proof (rule Cons.IH)
    show "a + v \<in> \<int>" using Cons.prems by simp
    show "\<forall>v \<in> set vs. v \<in> \<int>" using Cons.prems by simp
    have "\<bar>a + v\<bar> \<le> \<bar>a\<bar> + \<bar>v\<bar>" by simp
    with Cons.prems(3) show "\<bar>a + v\<bar> + (\<Sum>v\<leftarrow>vs. \<bar>v\<bar>) < 2 ^ 53" by simp
  qed
  with s show ?case by simp
qed

lemma js_sum_exact:
  assumes "\<forall>v \<in> set vs. v \<in> \<int>" and "(\<Sum>v\<leftarrow>vs. \<bar>v\<bar>) < 2 ^ 53"
  shows "js_sum vs = (if vs = [] then None else Some (sum_list vs))"
proof (cases vs)
  case Nil
  then show ?thesis by (simp add: js_sum_def)
next
  case (Cons v rest)
  with assms have "foldl js_add v rest = v + sum_list rest"
    by (intro foldl_js_add_exact) simp_all
  with Cons show ?thesis by (simp add: js_sum_def)
qed

section \<open>Dates: facts\<close>

lemma div_lower: "0 < k \<Longrightarrow> k * (a div k) \<le> (a::int)"
  using mult_div_mod_eq [of k a] pos_mod_sign [of k a] by linarith

lemma div_upper: "0 < k \<Longrightarrow> (a::int) < k * (a div k) + k"
  using mult_div_mod_eq [of k a] pos_mod_bound [of k a] by linarith

lemma DayFromYear_lower: "146097 * y - 287811596 \<le> 400 * DayFromYear y"
proof -
  define A where "A = (y - 1969) div 4"
  define B where "B = (y - 1901) div 100"
  define C where "C = (y - 1601) div 400"
  have "y - 1969 < 4 * A + 4" unfolding A_def by (rule div_upper) simp
  moreover have "100 * B \<le> y - 1901" unfolding B_def by (rule div_lower) simp
  moreover have "y - 1601 < 400 * C + 400" unfolding C_def by (rule div_upper) simp
  moreover have "DayFromYear y = 365 * y - 719050 + A - B + C"
    by (simp add: DayFromYear_def A_def B_def C_def)
  ultimately show ?thesis by linarith
qed

lemma DayFromYear_upper: "400 * DayFromYear y \<le> 146097 * y - 287810501"
proof -
  define A where "A = (y - 1969) div 4"
  define B where "B = (y - 1901) div 100"
  define C where "C = (y - 1601) div 400"
  have "4 * A \<le> y - 1969" unfolding A_def by (rule div_lower) simp
  moreover have "y - 1901 < 100 * B + 100" unfolding B_def by (rule div_upper) simp
  moreover have "400 * C \<le> y - 1601" unfolding C_def by (rule div_lower) simp
  moreover have "DayFromYear y = 365 * y - 719050 + A - B + C"
    by (simp add: DayFromYear_def A_def B_def C_def)
  ultimately show ?thesis by linarith
qed

text \<open>The year of a time value is the largest year that starts no later than its day.\<close>

lemma YearFromTime_largest:
  "DayFromYear (YearFromTime t) \<le> Day t \<and> Day t < DayFromYear (YearFromTime t + 1)"
proof -
  define d where "d = Day t"
  define q where "q = (400 * d) div 146097"
  define y where "y = 1970 + q"
  have e1: "146097 * q \<le> 400 * d"
    unfolding q_def by (rule div_lower) simp
  have e2: "400 * d < 146097 * q + 146097"
    unfolding q_def by (rule div_upper) simp
  define L where "L = DayFromYear (y - 1)"
  define H where "H = DayFromYear (y + 2)"
  have "400 * L \<le> 146097 * q - 145508"
    using DayFromYear_upper [of "y - 1"] by (simp add: L_def y_def algebra_simps)
  with e1 have lo: "L \<le> d" by linarith
  have "146097 * q + 291688 \<le> 400 * H"
    using DayFromYear_lower [of "y + 2"] by (simp add: H_def y_def algebra_simps)
  with e2 have hi: "d < H" by linarith
  have yt: "YearFromTime t =
      (if DayFromYear (y + 1) \<le> d then y + 1 else if d < DayFromYear y then y - 1 else y)"
    by (simp add: YearFromTime_def d_def y_def q_def Let_def)
  have 2: "y + 1 + 1 = y + 2" by simp
  show ?thesis
    unfolding yt d_def [symmetric] using lo hi by (simp add: 2 L_def H_def)
qed

lemma div_shift:
  fixes a k :: int
  assumes "0 < k"
  shows "(a + 1) div k = a div k + (if (a + 1) mod k = 0 then 1 else 0)"
proof (cases "a mod k + 1 < k")
  case True
  have e: "a + 1 = k * (a div k) + (a mod k + 1)"
    using mult_div_mod_eq [of k a] by simp
  have r: "0 \<le> a mod k + 1"
    using pos_mod_sign [OF assms, of a] by simp
  from int_div_pos_eq [OF e r True] int_mod_pos_eq [OF e r True]
    pos_mod_sign [OF assms, of a]
  show ?thesis by simp
next
  case False
  with pos_mod_bound [OF assms, of a] have m: "a mod k + 1 = k" by simp
  have "a + 1 = k * (a div k) + (a mod k + 1)"
    using mult_div_mod_eq [of k a] by simp
  also have "\<dots> = k * (a div k) + k"
    by (simp only: m)
  also have "\<dots> = k * (a div k + 1) + 0"
    by (simp add: algebra_simps)
  finally have e: "a + 1 = k * (a div k + 1) + 0" .
  from int_div_pos_eq [OF e _ assms] int_mod_pos_eq [OF e _ assms]
  show ?thesis by simp
qed

lemma mod_shift:
  fixes a k c :: int
  assumes "0 < k"
  shows "(a - k * c) mod k = a mod k"
proof -
  have "a - k * c = k * (a div k - c) + a mod k"
    using mult_div_mod_eq [of k a] by (simp add: algebra_simps)
  from int_mod_pos_eq [OF this pos_mod_sign [OF assms] pos_mod_bound [OF assms]]
  show ?thesis .
qed

lemma leap_divisions:
  fixes y :: int
  shows "(y - 1968) div 4 = (y - 1969) div 4 + (if y mod 4 = 0 then 1 else 0)"
    and "(y - 1900) div 100 = (y - 1901) div 100 + (if y mod 100 = 0 then 1 else 0)"
    and "(y - 1600) div 400 = (y - 1601) div 400 + (if y mod 400 = 0 then 1 else 0)"
  using div_shift [of 4 "y - 1969"] mod_shift [of 4 y 492]
    div_shift [of 100 "y - 1901"] mod_shift [of 100 y 19]
    div_shift [of 400 "y - 1601"] mod_shift [of 400 y 4]
  by simp_all

lemma leap_multiples: "y mod 100 = 0 \<Longrightarrow> y mod 4 = 0" "y mod 400 = 0 \<Longrightarrow> y mod 100 = 0"
  for y :: int
proof -
  have "(4::int) dvd 100" and "(100::int) dvd 400" by simp_all
  then show "y mod 100 = 0 \<Longrightarrow> y mod 4 = 0" and "y mod 400 = 0 \<Longrightarrow> y mod 100 = 0"
    by (meson dvd_trans mod_eq_0_iff_dvd)+
qed

lemma DayFromYear_Suc: "DayFromYear (y + 1) = DayFromYear y + DaysInYear y"
  using leap_multiples [of y]
  by (auto simp: DayFromYear_def DaysInYear_def leap_divisions)

lemma DaysInYear_cases: "DaysInYear y = 365 \<or> DaysInYear y = 366"
  by (simp add: DaysInYear_def)

lemma DayFromYear_mono: "y \<le> y' \<Longrightarrow> DayFromYear y \<le> DayFromYear y'"
proof (induction y' rule: int_ge_induct)
  case base
  then show ?case by simp
next
  case (step i)
  from DaysInYear_cases [of i] have "DayFromYear i \<le> DayFromYear (i + 1)"
    by (auto simp: DayFromYear_Suc)
  with step show ?case by simp
qed

lemma YearFromTime_unique:
  assumes "DayFromYear y \<le> Day t" and "Day t < DayFromYear (y + 1)"
  shows "YearFromTime t = y"
proof (rule ccontr)
  assume n: "YearFromTime t \<noteq> y"
  note l = YearFromTime_largest [of t]
  show False
  proof (cases "YearFromTime t < y")
    case True
    then have "DayFromYear (YearFromTime t + 1) \<le> DayFromYear y"
      by (intro DayFromYear_mono) simp
    with l assms show False by simp
  next
    case False
    with n have "DayFromYear (y + 1) \<le> DayFromYear (YearFromTime t)"
      by (intro DayFromYear_mono) simp
    with l assms show False by simp
  qed
qed


lemma leap_day_cases:
  "leap_day y = 0 \<and> DaysInYear y = 365 \<or> leap_day y = 1 \<and> DaysInYear y = 366"
  by (simp add: leap_day_def DaysInYear_def)

lemma MakeDay_month:
  assumes "0 \<le> m" and "m \<le> 11"
  shows "MakeDay y m 1 =
     DayFromYear y +
       (if m = 0 then 0 else if m = 1 then 31
        else [59, 90, 120, 151, 181, 212, 243, 273, 304, 334] ! nat (m - 2) + leap_day y)"
proof -
  from assms have "m div 12 = 0" and "m mod 12 = m" by simp_all
  then show ?thesis by (simp add: MakeDay_def Let_def leap_day_def)
qed

lemma MakeDay_next_year: "MakeDay y 12 1 = DayFromYear (y + 1)"
  by (simp add: MakeDay_def Let_def)

lemma month_cases:
  assumes "0 \<le> m" and "m \<le> (11::int)"
  shows "m = 0 \<or> m = 1 \<or> m = 2 \<or> m = 3 \<or> m = 4 \<or> m = 5 \<or> m = 6 \<or> m = 7 \<or> m = 8 \<or> m = 9 \<or>
         m = 10 \<or> m = 11"
  using assms by presburger

lemma MonthFromTime_year:
  assumes "YearFromTime t = y"
  shows "MonthFromTime t =
     (let d = Day t - DayFromYear y; l = leap_day y
      in if d < 31 then 0 else if d < 59 + l then 1 else if d < 90 + l then 2
         else if d < 120 + l then 3 else if d < 151 + l then 4 else if d < 181 + l then 5
         else if d < 212 + l then 6 else if d < 243 + l then 7 else if d < 273 + l then 8
         else if d < 304 + l then 9 else if d < 334 + l then 10 else 11)"
  by (simp add: MonthFromTime_def DayWithinYear_def InLeapYear_def leap_day_def assms)

text \<open>A day lies between the first day of a month and the first day of the next month
  exactly when it is a day of that month.\<close>

lemma month_of_day:
  assumes "0 \<le> m" and "m \<le> 11"
  shows "MakeDay y m 1 \<le> Day t \<and> Day t < MakeDay y (m + 1) 1 \<longleftrightarrow>
         YearFromTime t = y \<and> MonthFromTime t = m"
proof
  assume w: "MakeDay y m 1 \<le> Day t \<and> Day t < MakeDay y (m + 1) 1"
  have lo: "DayFromYear y \<le> MakeDay y m 1"
    using month_cases [OF assms] leap_day_cases [of y] by (auto simp: MakeDay_month)
  have hi: "MakeDay y (m + 1) 1 \<le> DayFromYear (y + 1)"
    using month_cases [OF assms] leap_day_cases [of y]
    by (auto simp: MakeDay_month MakeDay_next_year DayFromYear_Suc)
  from w lo hi have y: "YearFromTime t = y"
    by (intro YearFromTime_unique) simp_all
  from w month_cases [OF assms] leap_day_cases [of y] have "MonthFromTime t = m"
    unfolding MonthFromTime_year [OF y] Let_def
    by (auto simp: MakeDay_month MakeDay_next_year DayFromYear_Suc)
  with y show "YearFromTime t = y \<and> MonthFromTime t = m" by simp
next
  assume a: "YearFromTime t = y \<and> MonthFromTime t = m"
  then have y: "YearFromTime t = y" by simp
  from YearFromTime_largest [of t] y
  have b: "DayFromYear y \<le> Day t" "Day t < DayFromYear y + DaysInYear y"
    by (simp_all add: DayFromYear_Suc)
  from a have "MonthFromTime t = m" by simp
  with b month_cases [OF assms] leap_day_cases [of y]
  show "MakeDay y m 1 \<le> Day t \<and> Day t < MakeDay y (m + 1) 1"
    unfolding MonthFromTime_year [OF y] Let_def
    by (auto simp: MakeDay_month MakeDay_next_year DayFromYear_Suc split: if_splits)
qed


lemma Day_ge_iff: "a \<le> Day t \<longleftrightarrow> a * msPerDay \<le> t"
proof -
  have k: "(0::int) < 86400000" by simp
  note lo = div_lower [OF k, of t] and hi = div_upper [OF k, of t]
  show ?thesis
  proof
    assume "a \<le> Day t"
    then have "86400000 * a \<le> 86400000 * (t div 86400000)"
      by (simp add: Day_def msPerDay_def)
    with lo show "a * msPerDay \<le> t" by (simp add: msPerDay_def)
  next
    assume "a * msPerDay \<le> t"
    with hi have "86400000 * a < 86400000 * (t div 86400000 + 1)"
      by (simp add: msPerDay_def)
    then have "a < t div 86400000 + 1" by simp
    then show "a \<le> Day t" by (simp add: Day_def msPerDay_def)
  qed
qed

lemma Day_less_iff: "Day t < a \<longleftrightarrow> t < a * msPerDay"
  using Day_ge_iff [of a t] by auto

lemma Day_start: "Day (a * msPerDay) = a"
  by (simp add: Day_def msPerDay_def)

text \<open>The window of the specification holds the time values of the month, and no other.\<close>

lemma in_month_iff:
  assumes "1 \<le> m" and "m \<le> 12"
  shows "spec_in_month y m t \<longleftrightarrow> getFullYear t = y \<and> getMonth t + 1 = m"
proof -
  from assms have m: "0 \<le> m - 1" "m - 1 \<le> 11" by simp_all
  have "spec_in_month y m t \<longleftrightarrow> MakeDay y (m - 1) 1 \<le> Day t \<and> Day t < MakeDay y (m - 1 + 1) 1"
    by (simp add: spec_in_month_def Day_ge_iff Day_less_iff)
  also have "\<dots> \<longleftrightarrow> YearFromTime t = y \<and> MonthFromTime t = m - 1"
    by (rule month_of_day [OF m])
  finally show ?thesis
    by (auto simp: getFullYear_def getMonth_def)
qed

lemma MakeDay_next_month:
  assumes "0 \<le> m" and "m \<le> 11"
  shows "MakeDay y m 1 < MakeDay y (m + 1) 1"
  using month_cases [OF assms] leap_day_cases [of y]
  by (auto simp: MakeDay_month MakeDay_next_year DayFromYear_Suc)

lemma first_of_month:
  assumes "0 \<le> m" and "m \<le> 11"
  shows "getFullYear (MakeDay y m 1 * msPerDay) = y" and "getMonth (MakeDay y m 1 * msPerDay) = m"
proof -
  have "MakeDay y m 1 \<le> Day (MakeDay y m 1 * msPerDay) \<and>
        Day (MakeDay y m 1 * msPerDay) < MakeDay y (m + 1) 1"
    using MakeDay_next_month [OF assms] by (simp add: Day_start)
  then have "YearFromTime (MakeDay y m 1 * msPerDay) = y \<and>
             MonthFromTime (MakeDay y m 1 * msPerDay) = m"
    by (simp only: month_of_day [OF assms])
  then show "getFullYear (MakeDay y m 1 * msPerDay) = y"
    and "getMonth (MakeDay y m 1 * msPerDay) = m"
    by (simp_all add: getFullYear_def getMonth_def)
qed

section \<open>The page and the uploader: properties\<close>

text \<open>
  Claim C8. Loading a file whose name is already among the loaded file names changes
  nothing and signals the rejection: \<open>handleExcelData\<close> only shows the error toast and calls
  no setter, so the state after it is the state before it, and an upload of that one file
  leaves the state as it was.
\<close>

theorem duplicate_file_rejected:
  assumes "fname \<in> set (fileNames st)"
  shows "handleExcelData st dat fname = [toast_error (''File '' @ fname @ '' is already loaded'')]
       \<and> foldl apply_effect st (handleExcelData st dat fname) = st
       \<and> (file_name f = fname \<longrightarrow> upload R st [f] = st)"
proof -
  have h: "handleExcelData st dat' fname = [toast_error (''File '' @ fname @ '' is already loaded'')]"
    for dat'
    using assms by (simp add: handleExcelData_def)
  have "upload R st [f] = st" if "file_name f = fname"
    unfolding upload_def handleFileChange_def process_one_def processExcelFile_def
    using that h by (auto split: option.splits simp: Let_def)
  with h show ?thesis by simp
qed

theorem duplicate_file_rejected_witness:
  "handleExcelData (upload example_runtime empty_state [file_of ''a.xlsx'']) [sheet_a] ''a.xlsx''
     = [toast_error ''File a.xlsx is already loaded'']
   \<and> upload example_runtime (upload example_runtime empty_state [file_of ''a.xlsx''])
       [file_of ''a.xlsx'']
     = upload example_runtime empty_state [file_of ''a.xlsx'']
   \<and> fileNames (upload example_runtime empty_state [file_of ''a.xlsx'']) = [''a.xlsx'']"
proof -
  have fn: "fileNames (upload example_runtime empty_state [file_of ''a.xlsx'']) = [''a.xlsx'']"
    by code_simp
  have "''a.xlsx'' \<in> set (fileNames (upload example_runtime empty_state [file_of ''a.xlsx'']))"
    by (simp add: fn)
  from duplicate_file_rejected [OF this, of "[sheet_a]" "file_of ''a.xlsx''" example_runtime] fn
  show ?thesis by (simp add: file_of_def)
qed

text \<open>
  Claim C9. An upload action of more than two files is rejected as a whole: the only effect
  is the warning toast, no workbook is read, and the state is unchanged.
\<close>

theorem batch_over_two_rejected:
  assumes "length files > 2"
  shows "handleFileChange R st files = [toast_error ''Please select a maximum of 2 files'']
       \<and> upload R st files = st
       \<and> (\<forall>f \<in> set files. read_workbook (file_name f) \<notin> set (handleFileChange R st files))"
  using assms by (auto simp: handleFileChange_def upload_def)

theorem batch_over_two_rejected_witness:
  "handleFileChange example_runtime empty_state
     [file_of ''a.xlsx'', file_of ''b.xlsx'', file_of ''c.xlsx'']
     = [toast_error ''Please select a maximum of 2 files'']
   \<and> upload example_runtime empty_state [file_of ''a.xlsx'', file_of ''b.xlsx'', file_of ''c.xlsx'']
     = empty_state"
  using batch_over_two_rejected
    [of "[file_of ''a.xlsx'', file_of ''b.xlsx'', file_of ''c.xlsx'']" example_runtime empty_state]
  by simp

text \<open>
  Claim C5. The active worksheet is looked up by sheet name alone. With the files a.xlsx
  and b.xlsx loaded, each with a sheet named Sheet1, the user picks the second option of the
  selector, the sheet of b.xlsx; \<open>getActiveWorksheet\<close> returns the sheet of a.xlsx.
\<close>

theorem active_worksheet_by_name_only:
  "map fileName (excelData two_files) = [''a.xlsx'', ''b.xlsx'']
   \<and> map name (excelData two_files) = [''Sheet1'', ''Sheet1'']
   \<and> map_option fileName
       (getActiveWorksheet (foldl apply_effect two_files (select_onChange two_files 1)))
       = Some ''a.xlsx''"
  by code_simp

section \<open>Classification and eligibility: properties\<close>

lemma first_in_samples: "data sheet = first # rest \<Longrightarrow> cell first h \<in> set (samples sheet h)"
  by (simp add: samples_def min_def)

text \<open>
  Claim C10. For the selected sheet (with at least one row) the classification returns, the
  purchase-order columns are the headers that match \<open>order\<close>, \<open>po\<close> or \<open>purchase\<close> without
  regard to case and have a string or a number among the sampled cells, the value columns
  are the headers with a sampled number that are no such column, and so no header is in
  both lists.
\<close>

theorem po_columns_not_value_columns:
  assumes "selectedSheetData sheets sel = Some sheet" and "data sheet \<noteq> []"
  shows "\<exists>cols. columns R sheets sel = Inr cols
       \<and> set (poColumns cols) =
           {h \<in> set (headers sheet). po_header h \<and>
              list_ex (\<lambda>v. is_string v \<or> is_number v) (samples sheet h)}
       \<and> set (valueColumns cols) = {h \<in> set (headers sheet). hasNumber sheet h \<and> \<not> hasPo sheet h}
       \<and> set (poColumns cols) \<inter> set (valueColumns cols) = {}"
proof -
  from assms(2) obtain first rest where d: "data sheet = first # rest"
    by (cases "data sheet") auto
  have po: "(hasPo sheet h \<or> (is_string (cell first h) \<and> po_header h)) \<longleftrightarrow>
            (po_header h \<and> list_ex (\<lambda>v. is_string v \<or> is_number v) (samples sheet h))" for h
    using first_in_samples [OF d, of h] by (auto simp: hasPo_def list_ex_iff)
  have "hasPo sheet h \<longleftrightarrow> po_header h \<and> list_ex (\<lambda>v. is_string v \<or> is_number v) (samples sheet h)" for h
    by (auto simp: hasPo_def list_ex_iff)
  with po show ?thesis
    using assms(1) d by (auto simp: columns_def)
qed

theorem po_columns_not_value_columns_witness:
  "\<exists>cols. columns example_runtime [order_sheet] (Some ''orders.xlsx-Orders'') = Inr cols
     \<and> poColumns cols = [''Order No''] \<and> valueColumns cols = [''Amount'']
     \<and> hasNumber order_sheet ''Order No''
     \<and> set (poColumns cols) \<inter> set (valueColumns cols) = {}"
proof -
  have s: "selectedSheetData [order_sheet] (Some ''orders.xlsx-Orders'') = Some order_sheet"
    by (simp add: selectedSheetData_def truthy_str_def sheet_id_def order_sheet_def mk_sheet_def)
  have d: "data order_sheet \<noteq> []"
    by (simp add: order_sheet_def mk_sheet_def)
  have c: "columns example_runtime [order_sheet] (Some ''orders.xlsx-Orders'') =
        Inr \<lparr>poColumns = [''Order No''], dateColumns = [''Date''], valueColumns = [''Amount'']\<rparr>"
    by code_simp
  have n: "hasNumber order_sheet ''Order No''"
    by code_simp
  from po_columns_not_value_columns [OF s d, of example_runtime] obtain cols where
    1: "columns example_runtime [order_sheet] (Some ''orders.xlsx-Orders'') = Inr cols" and
    2: "set (poColumns cols) \<inter> set (valueColumns cols) = {}"
    by blast
  from 1 c have "cols = \<lparr>poColumns = [''Order No''], dateColumns = [''Date''], valueColumns = [''Amount'']\<rparr>"
    by simp
  then have "poColumns cols = [''Order No'']" and "valueColumns cols = [''Amount'']"
    by simp_all
  with 1 2 n show ?thesis
    by blast
qed

text \<open>
  Claim C4, as amended. From the first data row only: a sheet is eligible for the monthly
  report iff some column holds a \<open>Date\<close> or any string there (whether or not the string
  parses to a date) and some column holds a number; for the project report a string and a
  number; for the purchase-order report as for the monthly report. A sheet without rows is
  eligible for no report. Every sheet eligible by the rule of the specification is eligible.
\<close>

theorem eligibility_first_row:
  "(eligible_monthly sheet \<longleftrightarrow>
      data sheet \<noteq> [] \<and>
      (\<exists>h \<in> set (headers sheet). is_string (cell (hd (data sheet)) h) \<or> is_Date (cell (hd (data sheet)) h)) \<and>
      (\<exists>h \<in> set (headers sheet). is_number (cell (hd (data sheet)) h)))
   \<and> (eligible_project sheet \<longleftrightarrow>
      data sheet \<noteq> [] \<and>
      (\<exists>h \<in> set (headers sheet). is_string (cell (hd (data sheet)) h)) \<and>
      (\<exists>h \<in> set (headers sheet). is_number (cell (hd (data sheet)) h)))
   \<and> (eligible_po sheet \<longleftrightarrow>
      data sheet \<noteq> [] \<and>
      (\<exists>h \<in> set (headers sheet). is_string (cell (hd (data sheet)) h) \<or> is_Date (cell (hd (data sheet)) h)) \<and>
      (\<exists>h \<in> set (headers sheet). is_number (cell (hd (data sheet)) h)))
   \<and> (data sheet = [] \<longrightarrow> \<not> eligible_monthly sheet \<and> \<not> eligible_project sheet \<and> \<not> eligible_po sheet)
   \<and> (spec_eligible_monthly R sheet \<longrightarrow> eligible_monthly sheet)
   \<and> set (eligibleSheets_monthly sheets) = {s \<in> set sheets. eligible_monthly s}"
proof (cases "data sheet")
  case Nil
  then show ?thesis
    by (simp add: eligible_monthly_def eligible_project_def eligible_po_def spec_eligible_monthly_def
        eligibleSheets_monthly_def)
next
  case (Cons first rest)
  have "spec_date_like R v \<Longrightarrow> is_string v \<or> is_Date v" for v
    by (cases v) (auto simp: spec_date_like_def is_string_def is_Date_def)
  with Cons show ?thesis
    by (auto simp: eligible_monthly_def eligible_project_def eligible_po_def spec_eligible_monthly_def
        eligibleSheets_monthly_def list_ex_iff)
qed

theorem eligibility_first_row_witness:
  "eligible_monthly sheet_a \<and> data sheet_a \<noteq> [] \<and> spec_eligible_monthly example_runtime sheet_a
   \<and> is_Date (cell (hd (data sheet_a)) ''Date'') \<and> is_number (cell (hd (data sheet_a)) ''Amount'')
   \<and> eligibleSheets_monthly [sheet_a] = [sheet_a]"
proof -
  have 1: "spec_eligible_monthly example_runtime sheet_a" by code_simp
  have 2: "data sheet_a \<noteq> []" by (simp add: sheet_a_def mk_sheet_def)
  have 3: "is_Date (cell (hd (data sheet_a)) ''Date'')" by code_simp
  have 4: "is_number (cell (hd (data sheet_a)) ''Amount'')" by code_simp
  from eligibility_first_row [of sheet_a example_runtime "[sheet_a]"] 1
  have 5: "eligible_monthly sheet_a" by blast
  then have "eligibleSheets_monthly [sheet_a] = [sheet_a]"
    by (simp add: eligibleSheets_monthly_def)
  with 1 2 3 4 5 show ?thesis by simp
qed

text \<open>
  Claim C4 as stated fails: the first row of \<open>text_sheet\<close> holds the string abc, which parses
  to no date, and a number; the sheet is eligible for the monthly report.
\<close>

theorem eligibility_any_string_counterexample:
  "\<not> (eligible_monthly text_sheet \<longleftrightarrow> spec_eligible_monthly example_runtime text_sheet)"
  by code_simp

section \<open>The monthly report: properties\<close>

lemma monthly_row_Some:
  "monthly_row R dc vc r = Some (k, v) \<longleftrightarrow>
     (\<exists>t. row_date R (cell r dc) = Some t \<and> cell r vc = VNumber v \<and> k = monthKey_of t)"
  by (auto simp: monthly_row_def split: option.splits jsvalue.splits)

lemma distinct_sort_by: "distinct (map f (sort_by af xs)) = distinct (map f xs)"
proof -
  have "mset (map f (sort_by af xs)) = mset (map f xs)"
    by (simp add: mset_sort_by)
  then show ?thesis by (rule mset_eq_imp_distinct_iff)
qed

lemma monthKey_month_bucket: "monthKey (month_bucket src e) = fst e" "total (month_bucket src e) = snd e"
  by (simp_all add: month_bucket_def Let_def)

lemma sorted_by_date:
  assumes "\<forall>b \<in> set bs. date b \<noteq> None"
  shows "\<exists>ts. map date (sort_by date_after bs) = map Some ts \<and> sorted ts"
proof -
  let ?key = "\<lambda>b. the (date b)"
  have "\<forall>x \<in> set bs. \<forall>y \<in> set bs. date_after x y \<longleftrightarrow> ?key y < ?key x"
    using assms by (fastforce simp: date_after_def split: option.splits)
  then have "sorted (map ?key (sort_by date_after bs))"
    by (rule sorted_sort_by)
  moreover have "map date (sort_by date_after bs) = map Some (map ?key (sort_by date_after bs))"
    using assms by (simp add: set_sort_by)
  ultimately show ?thesis by blast
qed


lemma monthlyData_selected:
  assumes "selectedSheetData sheets sel = Some sheet" and "dc \<noteq> []" and "vc \<noteq> []"
  shows "monthlyData R sheets sel (Some dc) (Some vc) =
           sort_by date_after
             (map (month_bucket (Some (fileName sheet)))
                (aggregate (monthly_row R dc vc) (data sheet)))"
  using assms by (simp add: monthlyData_def monthlyMap_def)

lemma monthly_entry_row:
  assumes "e \<in> set (aggregate (monthly_row R dc vc) rows)"
  shows "\<exists>r \<in> set rows. \<exists>t v. row_date R (cell r dc) = Some t \<and> cell r vc = VNumber v \<and>
           fst e = monthKey_of t"
proof -
  have "fst e \<in> fst ` set (aggregate (monthly_row R dc vc) rows)"
    using assms by simp
  then obtain r v where "r \<in> set rows" and "monthly_row R dc vc r = Some (fst e, v)"
    unfolding keys_aggregate by blast
  then show ?thesis
    unfolding monthly_row_Some by blast
qed

lemma first_of_month_key:
  assumes "100 \<le> getFullYear t"
  shows "\<exists>t'. new_Date (Some (getFullYear t)) (Some (getMonth t)) 1 = Some t' \<and>
           monthKey_of t' = monthKey_of t"
proof -
  note m = getMonth_range [of t]
  from m have f: "getFullYear (MakeDay (getFullYear t) (getMonth t) 1 * msPerDay) = getFullYear t"
    "getMonth (MakeDay (getFullYear t) (getMonth t) 1 * msPerDay) = getMonth t"
    by (simp_all add: first_of_month)
  from assms have "new_Date (Some (getFullYear t)) (Some (getMonth t)) 1 =
      Some (MakeDay (getFullYear t) (getMonth t) 1 * msPerDay)"
    by (simp add: new_Date_def)
  moreover have "monthKey_of (MakeDay (getFullYear t) (getMonth t) 1 * msPerDay) = monthKey_of t"
    by (simp add: monthKey_of_def month2_def f)
  ultimately show ?thesis by blast
qed

text \<open>
  What the monthly report does on every input. For the selected sheet and columns: every
  row with a date and a numeric value has the bucket of its month, keyed \<open>year-month\<close> with
  the month padded to two digits and, for a year from 0 on, labelled \<open>month/year\<close>; the total
  of a bucket is the running sum, in row order, of the values of the rows of its month, and
  every bucket comes from such a row; the keys are distinct. With years from 0 on the
  buckets are in the order of their dates, and with years from 100 on the date of a bucket
  lies in the month of its key, so that this is the order of the months. The three rows
  dated 2024-01-15, 2024-01-20 and 2024-02-01 give the buckets of January and February
  2024, in that order.
\<close>

theorem monthly_buckets:
  "(selectedSheetData sheets sel = Some sheet \<and> dc \<noteq> [] \<and> vc \<noteq> [] \<longrightarrow>
      (\<forall>r \<in> set (data sheet). \<forall>t v.
          row_date R (cell r dc) = Some t \<and> cell r vc = VNumber v \<longrightarrow>
          (\<exists>b \<in> set (monthlyData R sheets sel (Some dc) (Some vc)).
              monthKey b = show_int (getFullYear t) @ ''-'' @ padStart2 (show_int (getMonth t + 1)) \<and>
              (0 \<le> getFullYear t \<longrightarrow>
                 month b = padStart2 (show_int (getMonth t + 1)) @ ''/'' @ show_int (getFullYear t))))
    \<and> (\<forall>b \<in> set (monthlyData R sheets sel (Some dc) (Some vc)).
          js_sum (values_of (monthly_row R dc vc) (data sheet) (monthKey b)) = Some (total b) \<and>
          (\<exists>r \<in> set (data sheet). \<exists>t v.
              row_date R (cell r dc) = Some t \<and> cell r vc = VNumber v \<and> monthKey b = monthKey_of t))
    \<and> distinct (map monthKey (monthlyData R sheets sel (Some dc) (Some vc)))
    \<and> ((\<forall>r \<in> set (data sheet). \<forall>t. row_date R (cell r dc) = Some t \<longrightarrow> 0 \<le> getFullYear t) \<longrightarrow>
          (\<exists>ts. map date (monthlyData R sheets sel (Some dc) (Some vc)) = map Some ts \<and> sorted ts))
    \<and> ((\<forall>r \<in> set (data sheet). \<forall>t. row_date R (cell r dc) = Some t \<longrightarrow> 100 \<le> getFullYear t) \<longrightarrow>
          (\<forall>b \<in> set (monthlyData R sheets sel (Some dc) (Some vc)).
              \<exists>t. date b = Some t \<and> monthKey b = monthKey_of t)))
   \<and> map (\<lambda>b. (monthKey b, month b, total b))
        (monthlyData R [monthly_sheet] (Some ''a.xlsx-Sheet1'') (Some ''Date'') (Some ''Amount''))
      = [(''2024-01'', ''01/2024'', 150), (''2024-02'', ''02/2024'', 30)]"
proof (rule conjI)
  show "map (\<lambda>b. (monthKey b, month b, total b))
        (monthlyData R [monthly_sheet] (Some ''a.xlsx-Sheet1'') (Some ''Date'') (Some ''Amount''))
      = [(''2024-01'', ''01/2024'', 150), (''2024-02'', ''02/2024'', 30)]"
    by code_simp
next
  let ?f = "monthly_row R dc vc"
  let ?es = "aggregate ?f (data sheet)"
  let ?src = "Some (fileName sheet)"
  let ?res = "monthlyData R sheets sel (Some dc) (Some vc)"
  show "selectedSheetData sheets sel = Some sheet \<and> dc \<noteq> [] \<and> vc \<noteq> [] \<longrightarrow>
      (\<forall>r \<in> set (data sheet). \<forall>t v.
          row_date R (cell r dc) = Some t \<and> cell r vc = VNumber v \<longrightarrow>
          (\<exists>b \<in> set ?res.
              monthKey b = show_int (getFullYear t) @ ''-'' @ padStart2 (show_int (getMonth t + 1)) \<and>
              (0 \<le> getFullYear t \<longrightarrow>
                 month b = padStart2 (show_int (getMonth t + 1)) @ ''/'' @ show_int (getFullYear t))))
    \<and> (\<forall>b \<in> set ?res.
          js_sum (values_of ?f (data sheet) (monthKey b)) = Some (total b) \<and>
          (\<exists>r \<in> set (data sheet). \<exists>t v.
              row_date R (cell r dc) = Some t \<and> cell r vc = VNumber v \<and> monthKey b = monthKey_of t))
    \<and> distinct (map monthKey ?res)
    \<and> ((\<forall>r \<in> set (data sheet). \<forall>t. row_date R (cell r dc) = Some t \<longrightarrow> 0 \<le> getFullYear t) \<longrightarrow>
          (\<exists>ts. map date ?res = map Some ts \<and> sorted ts))
    \<and> ((\<forall>r \<in> set (data sheet). \<forall>t. row_date R (cell r dc) = Some t \<longrightarrow> 100 \<le> getFullYear t) \<longrightarrow>
          (\<forall>b \<in> set ?res. \<exists>t. date b = Some t \<and> monthKey b = monthKey_of t))"
  proof (intro impI conjI)
    assume a: "selectedSheetData sheets sel = Some sheet \<and> dc \<noteq> [] \<and> vc \<noteq> []"
    then have res: "?res = sort_by date_after (map (month_bucket ?src) ?es)"
      by (simp add: monthlyData_selected)
    then have set_res: "set ?res = month_bucket ?src ` set ?es"
      by (simp add: set_sort_by)
    show "\<forall>r \<in> set (data sheet). \<forall>t v.
          row_date R (cell r dc) = Some t \<and> cell r vc = VNumber v \<longrightarrow>
          (\<exists>b \<in> set ?res.
              monthKey b = show_int (getFullYear t) @ ''-'' @ padStart2 (show_int (getMonth t + 1)) \<and>
              (0 \<le> getFullYear t \<longrightarrow>
                 month b = padStart2 (show_int (getMonth t + 1)) @ ''/'' @ show_int (getFullYear t)))"
    proof (intro ballI allI impI)
      fix r t v
      assume r: "r \<in> set (data sheet)"
        and tv: "row_date R (cell r dc) = Some t \<and> cell r vc = VNumber v"
      then have "?f r = Some (monthKey_of t, v)"
        by (simp add: monthly_row_Some)
      with r have "monthKey_of t \<in> fst ` set ?es"
        unfolding keys_aggregate by blast
      then obtain s where s: "(monthKey_of t, s) \<in> set ?es" by auto
      let ?b = "month_bucket ?src (monthKey_of t, s)"
      from s have b: "?b \<in> set ?res"
        unfolding set_res by (rule imageI)
      have k: "monthKey ?b = show_int (getFullYear t) @ ''-'' @ padStart2 (show_int (getMonth t + 1))"
        by (simp add: monthKey_month_bucket monthKey_of_def month2_def)
      have l: "month ?b = padStart2 (show_int (getMonth t + 1)) @ ''/'' @ show_int (getFullYear t)"
        if "0 \<le> getFullYear t"
        using month_bucket_key [OF that, of ?src s] by (simp add: monthYear_of_def month2_def)
      from b k l show "\<exists>b \<in> set ?res.
          monthKey b = show_int (getFullYear t) @ ''-'' @ padStart2 (show_int (getMonth t + 1)) \<and>
          (0 \<le> getFullYear t \<longrightarrow>
             month b = padStart2 (show_int (getMonth t + 1)) @ ''/'' @ show_int (getFullYear t))"
        by blast
    qed
    show "\<forall>b \<in> set ?res.
          js_sum (values_of ?f (data sheet) (monthKey b)) = Some (total b) \<and>
          (\<exists>r \<in> set (data sheet). \<exists>t v.
              row_date R (cell r dc) = Some t \<and> cell r vc = VNumber v \<and> monthKey b = monthKey_of t)"
    proof
      fix b
      assume "b \<in> set ?res"
      then obtain e where e: "e \<in> set ?es" and b: "b = month_bucket ?src e"
        unfolding set_res by blast
      from e have "(fst e, snd e) \<in> set ?es" by simp
      from total_aggregate [OF this]
      have "js_sum (values_of ?f (data sheet) (monthKey b)) = Some (total b)"
        by (simp add: b monthKey_month_bucket)
      moreover from monthly_entry_row [OF e]
      have "\<exists>r \<in> set (data sheet). \<exists>t v.
              row_date R (cell r dc) = Some t \<and> cell r vc = VNumber v \<and> monthKey b = monthKey_of t"
        by (simp add: b monthKey_month_bucket)
      ultimately show "js_sum (values_of ?f (data sheet) (monthKey b)) = Some (total b) \<and>
          (\<exists>r \<in> set (data sheet). \<exists>t v.
              row_date R (cell r dc) = Some t \<and> cell r vc = VNumber v \<and> monthKey b = monthKey_of t)"
        by blast
    qed
    have keys: "map monthKey (map (month_bucket ?src) ?es) = map fst ?es"
      by (simp add: monthKey_month_bucket)
    show "distinct (map monthKey ?res)"
      unfolding res distinct_sort_by keys by (rule distinct_aggregate)
    have bucket: "\<exists>t. c \<le> getFullYear t \<and> monthKey b = monthKey_of t \<and>
        date b = new_Date (Some (getFullYear t)) (Some (getMonth t)) 1"
      if y: "\<forall>r \<in> set (data sheet). \<forall>t. row_date R (cell r dc) = Some t \<longrightarrow> c \<le> getFullYear t"
        and c: "0 \<le> c" and b: "b \<in> set ?res" for b c
    proof -
      from b obtain e where e: "e \<in> set ?es" and be: "b = month_bucket ?src e"
        unfolding set_res by blast
      from monthly_entry_row [OF e] obtain r t where r: "r \<in> set (data sheet)"
        and t: "row_date R (cell r dc) = Some t" "fst e = monthKey_of t"
        by blast
      from y r t(1) have ct: "c \<le> getFullYear t" by blast
      with c have "0 \<le> getFullYear t" by simp
      from month_bucket_key [OF this, of ?src "snd e"] t(2)
      have "monthKey b = monthKey_of t"
        and "date b = new_Date (Some (getFullYear t)) (Some (getMonth t)) 1"
        unfolding be by (metis bucket.select_convs(1) prod.collapse,
            metis bucket.select_convs(4) prod.collapse)
      with ct show ?thesis by blast
    qed
    show "\<exists>ts. map date ?res = map Some ts \<and> sorted ts"
      if y: "\<forall>r \<in> set (data sheet). \<forall>t. row_date R (cell r dc) = Some t \<longrightarrow> 0 \<le> getFullYear t"
    proof -
      have "\<forall>b \<in> set (map (month_bucket ?src) ?es). date b \<noteq> None"
      proof
        fix b
        assume "b \<in> set (map (month_bucket ?src) ?es)"
        then have "b \<in> set ?res" by (simp add: set_res)
        from bucket [OF y _ this] show "date b \<noteq> None"
          by (auto simp: new_Date_def)
      qed
      then show ?thesis
        unfolding res by (rule sorted_by_date)
    qed
    show "\<forall>b \<in> set ?res. \<exists>t. date b = Some t \<and> monthKey b = monthKey_of t"
      if y: "\<forall>r \<in> set (data sheet). \<forall>t. row_date R (cell r dc) = Some t \<longrightarrow> 100 \<le> getFullYear t"
    proof
      fix b
      assume "b \<in> set ?res"
      from bucket [OF y _ this] obtain t where t: "100 \<le> getFullYear t"
        "monthKey b = monthKey_of t"
        "date b = new_Date (Some (getFullYear t)) (Some (getMonth t)) 1"
        by auto
      from first_of_month_key [OF t(1)] t(2,3)
      show "\<exists>t. date b = Some t \<and> monthKey b = monthKey_of t"
        by auto
    qed
  qed
qed

theorem monthly_buckets_witness:
  "selectedSheetData [string_dates_sheet] (Some ''b.xlsx-Data'') = Some string_dates_sheet
   \<and> list_all (\<lambda>r. case row_date example_runtime (cell r ''Day'') of None \<Rightarrow> True
                      | Some t \<Rightarrow> 100 \<le> getFullYear t) (data string_dates_sheet)
   \<and> distinct (map monthKey (monthlyData example_runtime [string_dates_sheet] (Some ''b.xlsx-Data'')
         (Some ''Day'') (Some ''Amount'')))
   \<and> (\<exists>ts. map date (monthlyData example_runtime [string_dates_sheet] (Some ''b.xlsx-Data'')
         (Some ''Day'') (Some ''Amount'')) = map Some ts \<and> sorted ts)
   \<and> map (\<lambda>b. (monthKey b, month b, total b))
        (monthlyData example_runtime [string_dates_sheet] (Some ''b.xlsx-Data'') (Some ''Day'')
           (Some ''Amount''))
      = [(''2023-12'', ''12/2023'', 2), (''2024-03'', ''03/2024'', 15)]"
proof -
  have sel: "selectedSheetData [string_dates_sheet] (Some ''b.xlsx-Data'') = Some string_dates_sheet"
    by (simp add: selectedSheetData_def truthy_str_def sheet_id_def string_dates_sheet_def
        mk_sheet_def)
  have la: "list_all (\<lambda>r. case row_date example_runtime (cell r ''Day'') of None \<Rightarrow> True
                      | Some t \<Rightarrow> 100 \<le> getFullYear t) (data string_dates_sheet)"
    by code_simp
  then have "\<forall>r \<in> set (data string_dates_sheet). \<forall>t.
      row_date example_runtime (cell r ''Day'') = Some t \<longrightarrow> 100 \<le> getFullYear t"
    by (auto simp: list_all_iff)
  then have years: "\<forall>r \<in> set (data string_dates_sheet). \<forall>t.
      row_date example_runtime (cell r ''Day'') = Some t \<longrightarrow> 0 \<le> getFullYear t"
    by force
  have cols: "''Day'' \<noteq> []" "''Amount'' \<noteq> []"
    by simp_all
  have res: "map (\<lambda>b. (monthKey b, month b, total b))
        (monthlyData example_runtime [string_dates_sheet] (Some ''b.xlsx-Data'') (Some ''Day'')
           (Some ''Amount''))
      = [(''2023-12'', ''12/2023'', 2), (''2024-03'', ''03/2024'', 15)]"
    by code_simp
  note t = monthly_buckets [of "[string_dates_sheet]" "Some ''b.xlsx-Data''" string_dates_sheet
      "''Day''" "''Amount''" example_runtime]
  from t sel cols
  have "distinct (map monthKey (monthlyData example_runtime [string_dates_sheet]
          (Some ''b.xlsx-Data'') (Some ''Day'') (Some ''Amount'')))"
    by blast
  moreover from t sel cols years
  have "\<exists>ts. map date (monthlyData example_runtime [string_dates_sheet] (Some ''b.xlsx-Data'')
         (Some ''Day'') (Some ''Amount'')) = map Some ts \<and> sorted ts"
    by blast
  ultimately have "distinct (map monthKey (monthlyData example_runtime [string_dates_sheet]
          (Some ''b.xlsx-Data'') (Some ''Day'') (Some ''Amount'')))"
    and "\<exists>ts. map date (monthlyData example_runtime [string_dates_sheet] (Some ''b.xlsx-Data'')
         (Some ''Day'') (Some ''Amount'')) = map Some ts \<and> sorted ts"
    by blast+
  with sel la res show ?thesis by blast
qed

text \<open>
  Claim C1. The buckets are not in chronological order when a year lies between 0 and 99.
  The code sorts them by \<open>new Date(parseInt(year), parseInt(month) - 1, 1)\<close>, which reads
  such a year as a year of the twentieth century: the rows dated 0050-03-15 (value 10) and
  1940-06-01 (value 20) give the bucket \<open>1940-06\<close> first and the bucket \<open>50-03\<close>, dated
  1 March 1950, second, although March of the year 50 lies before June 1940.
\<close>

theorem monthly_order_two_digit_year:
  "map (\<lambda>b. (monthKey b, month b, total b, date b))
     (monthlyData example_runtime [early_years_sheet] (Some ''old.xlsx-Sheet1'') (Some ''Date'')
        (Some ''Amount''))
     = [(''1940-06'', ''06/1940'', 20, Some (- 933638400000)),
        (''50-03'', ''03/50'', 10, Some (- 626054400000))]
   \<and> (getFullYear (- 60582988800000), getMonth (- 60582988800000)) = (50, 2)
   \<and> (getFullYear (- 933638400000), getMonth (- 933638400000)) = (1940, 5)
   \<and> (getFullYear (- 626054400000), getMonth (- 626054400000)) = (1950, 2)
   \<and> (- 60582988800000 :: int) < - 933638400000"
  by code_simp

section \<open>The purchase-order report: properties\<close>





lemma month_window:
  assumes "100 \<le> y" and "0 \<le> m"
  shows "startDate_of (show_int y @ ''-'' @ padStart2 (show_int m)) = Some (MakeDay y (m - 1) 1 * msPerDay)"
    and "endDate_of (show_int y @ ''-'' @ padStart2 (show_int m)) = Some (MakeDay y m 0 * msPerDay)"
proof -
  from assms have y: "0 \<le> y" by simp
  note kp = key_parts [OF y assms(2)]
  show "startDate_of (show_int y @ ''-'' @ padStart2 (show_int m)) = Some (MakeDay y (m - 1) 1 * msPerDay)"
    unfolding startDate_of_def kp(1) using assms(1)
    by (simp add: Let_def nth_str_def parseInt_opt_def kp(2,3) new_Date_def)
  show "endDate_of (show_int y @ ''-'' @ padStart2 (show_int m)) = Some (MakeDay y m 0 * msPerDay)"
    unfolding endDate_of_def kp(1) using assms(1)
    by (simp add: Let_def nth_str_def parseInt_opt_def kp(2,3) new_Date_def)
qed

lemma last_day_start: "MakeDay y m 0 * msPerDay < MakeDay y m 1 * msPerDay"
  by (simp add: MakeDay_def msPerDay_def Let_def)

lemma po_row_Some:
  "po_row R pc dc vc (Some s) (Some e) r = Some (k, v) \<longleftrightarrow>
     (\<exists>t. row_date R (cell r dc) = Some t \<and> s \<le> t \<and> t \<le> e) \<and> truthy (cell r pc) \<and>
     cell r vc = VNumber v \<and> k = js_String R (cell r pc)"
  by (auto simp: po_row_def before_date_def after_date_def split: option.splits jsvalue.splits)

lemma truthy_non_empty: "truthy v \<Longrightarrow> spec_non_empty v"
  by (cases v) (auto simp: truthy_def spec_non_empty_def)

text \<open>
  Claim C2, as amended. For the selected month \<open>year-month\<close> of a year from 100 on: a row adds
  to the purchase-order map only if its date cell yields a valid date within the window of
  the month, its order-identifier cell is truthy (hence non-empty) and its value cell is a
  number; it does add, under its order identifier as a string, when moreover the date is
  not after 00:00 of the last day of the month. The keys of the map are the order
  identifiers of the rows that add. The window of the month holds exactly the dates of
  that year and month.
\<close>

theorem po_row_contributes:
  assumes "100 \<le> y" and "1 \<le> m" and "m \<le> 12"
    and "sm = show_int y @ ''-'' @ padStart2 (show_int m)"
  shows "(po_row R pc dc vc (startDate_of sm) (endDate_of sm) r \<noteq> None \<longrightarrow>
            spec_po_contributes R pc dc y m r \<and> truthy (cell r pc) \<and> is_number (cell r vc))
       \<and> ((\<exists>t. row_date R (cell r dc) = Some t \<and> MakeDay y (m - 1) 1 * msPerDay \<le> t \<and>
                t \<le> MakeDay y m 0 * msPerDay) \<and> truthy (cell r pc) \<and> is_number (cell r vc) \<longrightarrow>
            (\<exists>v. cell r vc = VNumber v \<and>
                po_row R pc dc vc (startDate_of sm) (endDate_of sm) r = Some (js_String R (cell r pc), v)))
       \<and> fst ` set (poMap R pc dc vc sm rows) =
            {js_String R (cell r' pc) | r'. r' \<in> set rows \<and>
               po_row R pc dc vc (startDate_of sm) (endDate_of sm) r' \<noteq> None}
       \<and> (spec_in_month y m t \<longleftrightarrow> getFullYear t = y \<and> getMonth t + 1 = m)"
proof -
  from assms have m0: "0 \<le> m" by simp
  note 4 = in_month_iff [OF assms(2,3), of y t]
  note w = month_window [OF assms(1) m0, folded assms(4)]
  have 1: "spec_po_contributes R pc dc y m r \<and> truthy (cell r pc) \<and> is_number (cell r vc)"
    if "po_row R pc dc vc (startDate_of sm) (endDate_of sm) r \<noteq> None"
  proof -
    from that obtain k v where "po_row R pc dc vc (startDate_of sm) (endDate_of sm) r = Some (k, v)"
      by auto
    then obtain t where t: "row_date R (cell r dc) = Some t" "MakeDay y (m - 1) 1 * msPerDay \<le> t"
      "t \<le> MakeDay y m 0 * msPerDay" and p: "truthy (cell r pc)" and n: "cell r vc = VNumber v"
      unfolding w po_row_Some by blast
    from t(3) last_day_start [of y m] have "t < MakeDay y m 1 * msPerDay" by simp
    with t p n show ?thesis
      by (simp add: spec_po_contributes_def spec_in_month_def truthy_non_empty is_number_def)
  qed
  have 2: "\<exists>v. cell r vc = VNumber v \<and>
      po_row R pc dc vc (startDate_of sm) (endDate_of sm) r = Some (js_String R (cell r pc), v)"
    if "(\<exists>t. row_date R (cell r dc) = Some t \<and> MakeDay y (m - 1) 1 * msPerDay \<le> t \<and>
          t \<le> MakeDay y m 0 * msPerDay) \<and> truthy (cell r pc) \<and> is_number (cell r vc)"
  proof -
    from that obtain v where "cell r vc = VNumber v"
      by (cases "cell r vc") (auto simp: is_number_def)
    with that show ?thesis unfolding w po_row_Some by blast
  qed
  have 3: "fst ` set (poMap R pc dc vc sm rows) =
            {js_String R (cell r' pc) | r'. r' \<in> set rows \<and>
               po_row R pc dc vc (startDate_of sm) (endDate_of sm) r' \<noteq> None}"
  proof -
    let ?f = "po_row R pc dc vc (startDate_of sm) (endDate_of sm)"
    have k: "k = js_String R (cell x pc)" if "?f x = Some (k, v)" for x k v
      using that unfolding w po_row_Some by simp
    have "{k. \<exists>x \<in> set rows. \<exists>v. ?f x = Some (k, v)} =
          {js_String R (cell r' pc) | r'. r' \<in> set rows \<and> ?f r' \<noteq> None}"
    proof (intro set_eqI iffI)
      fix k
      assume "k \<in> {k. \<exists>x \<in> set rows. \<exists>v. ?f x = Some (k, v)}"
      then obtain x v where x: "x \<in> set rows" "?f x = Some (k, v)" by blast
      with k [OF x(2)] show "k \<in> {js_String R (cell r' pc) | r'. r' \<in> set rows \<and> ?f r' \<noteq> None}"
        by auto
    next
      fix k
      assume "k \<in> {js_String R (cell r' pc) | r'. r' \<in> set rows \<and> ?f r' \<noteq> None}"
      then obtain r' where r': "k = js_String R (cell r' pc)" "r' \<in> set rows" "?f r' \<noteq> None"
        by blast
      from r'(3) obtain k' v where kv: "?f r' = Some (k', v)" by auto
      with k [OF kv] r' show "k \<in> {k. \<exists>x \<in> set rows. \<exists>v. ?f x = Some (k, v)}"
        by auto
    qed
    then show ?thesis
      by (simp add: poMap_def keys_aggregate)
  qed
  from 1 2 3 4 show ?thesis by blast
qed


theorem po_row_contributes_witness:
  "(100::int) \<le> 2024 \<and> ''2024-01'' = show_int 2024 @ ''-'' @ padStart2 (show_int 1)
   \<and> po_row example_runtime ''PO'' ''Date'' ''Amount'' (startDate_of ''2024-01'')
       (endDate_of ''2024-01'') mid_month_row = Some (''PO-3'', 5)
   \<and> spec_po_contributes example_runtime ''PO'' ''Date'' 2024 1 mid_month_row
   \<and> fst ` set (poMap example_runtime ''PO'' ''Date'' ''Amount'' ''2024-01''
                  [mid_month_row, last_day_row, text_value_row])
     = {js_String example_runtime (cell r' ''PO'') | r'.
          r' \<in> set [mid_month_row, last_day_row, text_value_row] \<and>
          po_row example_runtime ''PO'' ''Date'' ''Amount'' (startDate_of ''2024-01'')
            (endDate_of ''2024-01'') r' \<noteq> None}"
proof -
  have sm: "''2024-01'' = show_int 2024 @ ''-'' @ padStart2 (show_int 1)"
    by code_simp
  have r: "po_row example_runtime ''PO'' ''Date'' ''Amount'' (startDate_of ''2024-01'')
       (endDate_of ''2024-01'') mid_month_row = Some (''PO-3'', 5)"
    by code_simp
  note t = po_row_contributes [of 2024 1 "''2024-01''" example_runtime "''PO''" "''Date''"
      "''Amount''" mid_month_row "[mid_month_row, last_day_row, text_value_row]" 0, OF _ _ _ sm]
  from t r have "spec_po_contributes example_runtime ''PO'' ''Date'' 2024 1 mid_month_row"
    by simp
  moreover from t have "fst ` set (poMap example_runtime ''PO'' ''Date'' ''Amount'' ''2024-01''
                  [mid_month_row, last_day_row, text_value_row])
     = {js_String example_runtime (cell r' ''PO'') | r'.
          r' \<in> set [mid_month_row, last_day_row, text_value_row] \<and>
          po_row example_runtime ''PO'' ''Date'' ''Amount'' (startDate_of ''2024-01'')
            (endDate_of ''2024-01'') r' \<noteq> None}"
    by simp
  ultimately show ?thesis using sm r by simp
qed

text \<open>
  Claim C2 as stated fails. In January 2024, with non-empty order identifiers: the row of
  2024-01-15 whose value cell is a string adds nothing; and the row of 2024-01-31, 10:00, on
  the last day of the month, adds nothing, because the end of the window is 00:00 of
  that day. In January of the year 50 the row of 0050-01-10 adds nothing either: the window
  of the month \<open>50-01\<close> is January 1950.
\<close>

theorem po_row_counterexample:
  "spec_po_contributes example_runtime ''PO'' ''Date'' 2024 1 text_value_row
   \<and> po_row example_runtime ''PO'' ''Date'' ''Amount'' (startDate_of ''2024-01'')
       (endDate_of ''2024-01'') text_value_row = None
   \<and> spec_po_contributes example_runtime ''PO'' ''Date'' 2024 1 last_day_row
   \<and> po_row example_runtime ''PO'' ''Date'' ''Amount'' (startDate_of ''2024-01'')
       (endDate_of ''2024-01'') last_day_row = None
   \<and> (getFullYear 1706695200000, getMonth 1706695200000) = (2024, 0)
   \<and> endDate_of ''2024-01'' = Some 1706659200000
   \<and> spec_po_contributes example_runtime ''PO'' ''Date'' 50 1 year50_row
   \<and> po_row example_runtime ''PO'' ''Date'' ''Amount'' (startDate_of ''50-01'')
       (endDate_of ''50-01'') year50_row = None
   \<and> (getFullYear (- 60588518400000), getMonth (- 60588518400000)) = (50, 0)
   \<and> (startDate_of ''50-01'', endDate_of ''50-01'') = (Some (- 631152000000), Some (- 628560000000))
   \<and> (getFullYear (- 631152000000), getMonth (- 631152000000)) = (1950, 0)"
  by code_simp

section \<open>The project report: properties\<close>

lemma map_filter_map_option:
  "List.map_filter (\<lambda>x. map_option h (f x)) xs = map h (List.map_filter f xs)"
  by (induction xs) (auto split: option.splits)

lemma project_row_spec:
  assumes "sm \<noteq> []"
  shows "map_option point_bucket (project_row R pc dc vc proj (Some sm) r) =
         map_option (\<lambda>(t, v). \<lparr>monthKey = monthKey_of t, month = sm, total = v, date = Some t,
                                source = None\<rparr>)
           (spec_project_match R pc dc vc proj sm r)"
proof (cases "cell r pc = VString proj")
  case False
  then show ?thesis
    by (cases "cell r pc")
      (simp_all add: project_row_def spec_project_match_def split: option.splits jsvalue.splits)
next
  case True
  show ?thesis
  proof (cases "row_date R (cell r dc)")
    case None
    with True show ?thesis
      by (simp add: project_row_def spec_project_match_def)
  next
    case (Some t)
    with True assms show ?thesis
      by (cases "cell r vc")
        (auto simp: project_row_def spec_project_match_def point_bucket_def truthy_str_def)
  qed
qed

lemma projectData_detail:
  assumes "selectedSheetData sheets sel = Some sheet" and "pc \<noteq> []" "dc \<noteq> []" "vc \<noteq> []"
    "proj \<noteq> []" "sm \<noteq> []"
  shows "projectData R sheets sel (Some pc) (Some dc) (Some vc) (Some proj) (Some sm) =
         sort_by date_after
           (map (\<lambda>(t, v). \<lparr>monthKey = monthKey_of t, month = sm, total = v, date = Some t,
                           source = None\<rparr>)
              (List.map_filter (spec_project_match R pc dc vc proj sm) (data sheet)))"
proof -
  have "map point_bucket (List.map_filter (project_row R pc dc vc proj (Some sm)) (data sheet)) =
        List.map_filter (\<lambda>r. map_option point_bucket (project_row R pc dc vc proj (Some sm) r))
          (data sheet)"
    by (simp add: map_filter_map_option)
  also have "\<dots> = map (\<lambda>(t, v). \<lparr>monthKey = monthKey_of t, month = sm, total = v, date = Some t,
                           source = None\<rparr>)
              (List.map_filter (spec_project_match R pc dc vc proj sm) (data sheet))"
    unfolding project_row_spec [OF assms(6)] by (simp add: map_filter_map_option)
  finally show ?thesis
    using assms by (simp add: projectData_def truthy_str_def Let_def)
qed

text \<open>
  Claim C3, as amended. With a project and a month selected, the result has one bucket for
  every matching row (the project cell is the selected project, the date is of the selected
  month, the value is a number) and no other: the total of the bucket is the value of the
  row, its date the date of the row, its label the selected month, and its key the
  calendar-month key \<open>year-month\<close> of the date of the row. The buckets are in the order of
  their dates.
\<close>

theorem project_detail_buckets:
  assumes "selectedSheetData sheets sel = Some sheet" and "pc \<noteq> []" "dc \<noteq> []" "vc \<noteq> []"
    "proj \<noteq> []" "sm \<noteq> []"
  shows "mset (projectData R sheets sel (Some pc) (Some dc) (Some vc) (Some proj) (Some sm)) =
           image_mset (\<lambda>(t, v). \<lparr>monthKey = monthKey_of t, month = sm, total = v, date = Some t,
                                  source = None\<rparr>)
             (mset (List.map_filter (spec_project_match R pc dc vc proj sm) (data sheet)))
       \<and> length (projectData R sheets sel (Some pc) (Some dc) (Some vc) (Some proj) (Some sm)) =
           length (filter (\<lambda>r. spec_project_match R pc dc vc proj sm r \<noteq> None) (data sheet))
       \<and> (\<exists>ts. map date (projectData R sheets sel (Some pc) (Some dc) (Some vc) (Some proj)
                  (Some sm)) = map Some ts \<and> sorted ts)"
proof -
  let ?g = "\<lambda>(t, v). \<lparr>monthKey = monthKey_of t, month = sm, total = v, date = Some t,
                                  source = None\<rparr>"
  let ?ms = "List.map_filter (spec_project_match R pc dc vc proj sm) (data sheet)"
  note d = projectData_detail [OF assms, of R]
  have 1: "mset (sort_by date_after (map ?g ?ms)) = image_mset ?g (mset ?ms)"
    by (simp add: mset_sort_by)
  have "length ?ms = length (filter (\<lambda>r. spec_project_match R pc dc vc proj sm r \<noteq> None) (data sheet))"
    by (simp add: List.map_filter_def)
  then have 2: "length (sort_by date_after (map ?g ?ms)) =
      length (filter (\<lambda>r. spec_project_match R pc dc vc proj sm r \<noteq> None) (data sheet))"
    by (simp add: length_sort_by)
  have "\<forall>b \<in> set (map ?g ?ms). date b \<noteq> None"
    by auto
  then have 3: "\<exists>ts. map date (sort_by date_after (map ?g ?ms)) = map Some ts \<and> sorted ts"
    by (rule sorted_by_date)
  from 1 2 3 show ?thesis unfolding d by blast
qed

lemma project_detail_example:
  "projectData example_runtime [project_sheet] (Some ''p.xlsx-Costs'') (Some ''Project'')
     (Some ''Date'') (Some ''Amount'') (Some ''Alpha'') (Some ''01/2024'')
   = [\<lparr>monthKey = ''2024-01'', month = ''01/2024'', total = 100, date = Some 1705276800000,
        source = None\<rparr>,
      \<lparr>monthKey = ''2024-01'', month = ''01/2024'', total = 50, date = Some 1705708800000,
        source = None\<rparr>]"
  by code_simp

theorem project_detail_buckets_witness:
  "selectedSheetData [project_sheet] (Some ''p.xlsx-Costs'') = Some project_sheet
   \<and> length (projectData example_runtime [project_sheet] (Some ''p.xlsx-Costs'') (Some ''Project'')
        (Some ''Date'') (Some ''Amount'') (Some ''Alpha'') (Some ''01/2024''))
     = length (filter (\<lambda>r. spec_project_match example_runtime ''Project'' ''Date'' ''Amount''
                  ''Alpha'' ''01/2024'' r \<noteq> None) (data project_sheet))
   \<and> map (\<lambda>b. (monthKey b, month b, total b, date b))
       (projectData example_runtime [project_sheet] (Some ''p.xlsx-Costs'') (Some ''Project'')
          (Some ''Date'') (Some ''Amount'') (Some ''Alpha'') (Some ''01/2024''))
     = [(''2024-01'', ''01/2024'', 100, Some 1705276800000),
        (''2024-01'', ''01/2024'', 50, Some 1705708800000)]"
proof -
  have sel: "selectedSheetData [project_sheet] (Some ''p.xlsx-Costs'') = Some project_sheet"
    by (simp add: selectedSheetData_def truthy_str_def sheet_id_def project_sheet_def mk_sheet_def)
  have res: "map (\<lambda>b. (monthKey b, month b, total b, date b))
       (projectData example_runtime [project_sheet] (Some ''p.xlsx-Costs'') (Some ''Project'')
          (Some ''Date'') (Some ''Amount'') (Some ''Alpha'') (Some ''01/2024''))
     = [(''2024-01'', ''01/2024'', 100, Some 1705276800000),
        (''2024-01'', ''01/2024'', 50, Some 1705708800000)]"
    unfolding project_detail_example by simp
  from project_detail_buckets [OF sel, of "''Project''" "''Date''" "''Amount''" "''Alpha''"
      "''01/2024''" example_runtime]
  have "length (projectData example_runtime [project_sheet] (Some ''p.xlsx-Costs'') (Some ''Project'')
        (Some ''Date'') (Some ''Amount'') (Some ''Alpha'') (Some ''01/2024''))
     = length (filter (\<lambda>r. spec_project_match example_runtime ''Project'' ''Date'' ''Amount''
                  ''Alpha'' ''01/2024'' r \<noteq> None) (data project_sheet))"
    by simp
  with sel res show ?thesis by blast
qed

text \<open>
  Claim C3 as stated fails in its last part: the keys of the detail view are no per-row
  index. The two rows of project Alpha in January 2024 give two buckets with the same key,
  the month key 2024-01.
\<close>

theorem project_detail_key_counterexample:
  "map monthKey
     (projectData example_runtime [project_sheet] (Some ''p.xlsx-Costs'') (Some ''Project'')
        (Some ''Date'') (Some ''Amount'') (Some ''Alpha'') (Some ''01/2024''))
     = [''2024-01'', ''2024-01'']
   \<and> \<not> distinct (map monthKey
         (projectData example_runtime [project_sheet] (Some ''p.xlsx-Costs'') (Some ''Project'')
            (Some ''Date'') (Some ''Amount'') (Some ''Alpha'') (Some ''01/2024'')))"
  unfolding project_detail_example by simp

section \<open>Permuted rows: properties\<close>

lemma mset_values_of:
  "mset (values_of f xs k) =
     image_mset snd (filter_mset (\<lambda>e. fst e = k)
       (image_mset (the \<circ> f) (filter_mset (\<lambda>x. f x \<noteq> None) (mset xs))))"
  by (simp add: values_of_def List.map_filter_def)

lemma values_of_perm:
  "mset xs' = mset xs \<Longrightarrow> mset (values_of f xs' k) = mset (values_of f xs k)"
  by (simp add: mset_values_of)

lemma keys_perm:
  assumes "mset xs' = mset xs"
  shows "fst ` set (aggregate f xs') = fst ` set (aggregate f xs)"
proof -
  from assms have "set xs' = set xs" by (rule mset_eq_setD)
  then show ?thesis by (simp add: keys_aggregate)
qed

lemma sum_values_of_le: "(\<Sum>v\<leftarrow>values_of f xs k. \<bar>v\<bar>) \<le> (\<Sum>x\<leftarrow>xs. weight f x)"
proof (induction xs)
  case Nil
  then show ?case by (simp add: values_of_def)
next
  case (Cons x xs)
  then show ?case
    by (cases "f x") (auto simp: values_of_Cons weight_def)
qed

lemma values_of_mem:
  "v \<in> set (values_of f xs k) \<Longrightarrow> \<exists>x \<in> set xs. f x = Some (k, v)"
  by (induction xs) (auto simp: values_of_Cons values_of_def split: option.splits if_splits)

lemma exact_lookup:
  assumes "\<forall>x \<in> set xs. \<forall>k v. f x = Some (k, v) \<longrightarrow> v \<in> \<int>"
    and "(\<Sum>x\<leftarrow>xs. weight f x) < 2 ^ 53"
  shows "map_of (aggregate f xs) k =
           (if values_of f xs k = [] then None else Some (sum_list (values_of f xs k)))"
proof -
  have "\<forall>v \<in> set (values_of f xs k). v \<in> \<int>"
    using assms(1) values_of_mem [of _ f xs k] by blast
  moreover have "(\<Sum>v\<leftarrow>values_of f xs k. \<bar>v\<bar>) < 2 ^ 53"
    using sum_values_of_le [of f xs k] assms(2) by simp
  ultimately show ?thesis
    by (simp only: lookup_aggregate js_sum_exact)
qed

lemma exact_perm:
  assumes p: "mset xs' = mset xs"
    and ints: "\<forall>x \<in> set xs. \<forall>k v. f x = Some (k, v) \<longrightarrow> v \<in> \<int>"
    and bound: "(\<Sum>x\<leftarrow>xs. weight f x) < 2 ^ 53"
  shows "map_of (aggregate f xs') = map_of (aggregate f xs)"
proof
  fix k
  from p have s: "set xs' = set xs" by (rule mset_eq_setD)
  have "sum_list (map (weight f) xs') = sum_mset (image_mset (weight f) (mset xs'))"
    by (metis mset_map sum_mset_sum_list)
  also have "\<dots> = sum_list (map (weight f) xs)"
    unfolding p by (metis mset_map sum_mset_sum_list)
  finally have bound': "(\<Sum>x\<leftarrow>xs'. weight f x) < 2 ^ 53"
    using bound by simp
  from ints s have ints': "\<forall>x \<in> set xs'. \<forall>k v. f x = Some (k, v) \<longrightarrow> v \<in> \<int>"
    by simp
  note m = values_of_perm [OF p, of f k]
  have e: "values_of f xs' k = [] \<longleftrightarrow> values_of f xs k = []"
    using m by (metis mset_zero_iff)
  have "sum_list (values_of f xs' k) = sum_list (values_of f xs k)"
    using m by (metis sum_mset_sum_list)
  with e show "map_of (aggregate f xs') k = map_of (aggregate f xs) k"
    by (simp add: exact_lookup [OF ints bound] exact_lookup [OF ints' bound'])
qed

lemma exact_column_weights:
  assumes c: "exact_column vc rows"
    and f: "\<And>r k v. f r = Some (k, v) \<Longrightarrow> cell r vc = VNumber v"
  shows "\<forall>r \<in> set rows. \<forall>k v. f r = Some (k, v) \<longrightarrow> v \<in> \<int>"
    and "(\<Sum>r\<leftarrow>rows. weight f r) < 2 ^ 53"
proof -
  show "\<forall>r \<in> set rows. \<forall>k v. f r = Some (k, v) \<longrightarrow> v \<in> \<int>"
  proof (intro ballI allI impI)
    fix r k v
    assume r: "r \<in> set rows" and fr: "f r = Some (k, v)"
    from fr have "cell r vc = VNumber v" by (rule f)
    with c r have "of_int \<lfloor>v\<rfloor> = v"
      by (auto simp: exact_column_def list_all_iff)
    then show "v \<in> \<int>" by (metis Ints_of_int)
  qed
  have "weight f r \<le> (case cell r vc of VNumber v \<Rightarrow> \<bar>v\<bar> | _ \<Rightarrow> 0)" for r
  proof (cases "f r")
    case None
    then show ?thesis by (simp add: weight_def split: jsvalue.splits)
  next
    case (Some e)
    obtain k v where "e = (k, v)" by (cases e)
    with Some f [of r k v] show ?thesis by (simp add: weight_def)
  qed
  then have "(\<Sum>r\<leftarrow>rows. weight f r) \<le> (\<Sum>r\<leftarrow>rows. case cell r vc of VNumber v \<Rightarrow> \<bar>v\<bar> | _ \<Rightarrow> 0)"
    by (intro sum_list_mono) simp
  with c show "(\<Sum>r\<leftarrow>rows. weight f r) < 2 ^ 53"
    by (simp add: exact_column_def)
qed

lemma foldl_unrounded: "unrounded_from acc vs \<Longrightarrow> foldl js_add acc vs = acc + sum_list vs"
  by (induction vs arbitrary: acc) (simp_all add: add.assoc)

lemma js_sum_unrounded:
  "unrounded vs \<Longrightarrow> js_sum vs = (if vs = [] then None else Some (sum_list vs))"
  by (cases vs) (simp_all add: unrounded_def js_sum_def foldl_unrounded)

lemma unrounded_perm:
  assumes p: "mset xs' = mset xs"
    and u: "unrounded (values_of f xs k)" and u': "unrounded (values_of f xs' k)"
  shows "map_of (aggregate f xs') k = map_of (aggregate f xs) k"
proof -
  note m = values_of_perm [OF p, of f k]
  have e: "values_of f xs' k = [] \<longleftrightarrow> values_of f xs k = []"
    using m by (metis mset_zero_iff)
  have "sum_list (values_of f xs' k) = sum_list (values_of f xs k)"
    using m by (metis sum_mset_sum_list)
  with e show ?thesis
    by (simp add: lookup_aggregate js_sum_unrounded [OF u] js_sum_unrounded [OF u'])
qed

lemma monthly_row_number: "monthly_row R dc vc r = Some (k, v) \<Longrightarrow> cell r vc = VNumber v"
  by (auto simp: monthly_row_def split: option.splits jsvalue.splits)

lemma po_row_number: "po_row R pc dc vc s e r = Some (k, v) \<Longrightarrow> cell r vc = VNumber v"
  by (auto simp: po_row_def split: option.splits jsvalue.splits if_splits)

text \<open>
  Claim C6, as amended. The rows of a worksheet in another order give the same bucket keys,
  in the monthly report and in the purchase-order report. A bucket has the same total in
  both orders whenever no addition into it is rounded in either order; and all buckets
  have the same totals when the numbers of the value column are integers whose absolute
  values add up to less than \<open>2^53\<close>, where no addition is rounded in any order.
\<close>

theorem aggregation_of_permuted_rows:
  assumes "mset rows' = mset rows"
  shows "fst ` set (monthlyMap R dc vc rows') = fst ` set (monthlyMap R dc vc rows)
       \<and> fst ` set (poMap R pc dc vc sm rows') = fst ` set (poMap R pc dc vc sm rows)
       \<and> (unrounded (values_of (monthly_row R dc vc) rows k) \<and>
          unrounded (values_of (monthly_row R dc vc) rows' k) \<longrightarrow>
            map_of (monthlyMap R dc vc rows') k = map_of (monthlyMap R dc vc rows) k)
       \<and> (unrounded (values_of (po_row R pc dc vc (startDate_of sm) (endDate_of sm)) rows k) \<and>
          unrounded (values_of (po_row R pc dc vc (startDate_of sm) (endDate_of sm)) rows' k) \<longrightarrow>
            map_of (poMap R pc dc vc sm rows') k = map_of (poMap R pc dc vc sm rows) k)
       \<and> (exact_column vc rows \<longrightarrow>
            map_of (monthlyMap R dc vc rows') = map_of (monthlyMap R dc vc rows) \<and>
            map_of (poMap R pc dc vc sm rows') = map_of (poMap R pc dc vc sm rows))"
proof (intro conjI impI)
  show "fst ` set (monthlyMap R dc vc rows') = fst ` set (monthlyMap R dc vc rows)"
    unfolding monthlyMap_def by (rule keys_perm [OF assms])
  show "fst ` set (poMap R pc dc vc sm rows') = fst ` set (poMap R pc dc vc sm rows)"
    unfolding poMap_def by (rule keys_perm [OF assms])
next
  assume "unrounded (values_of (monthly_row R dc vc) rows k) \<and>
          unrounded (values_of (monthly_row R dc vc) rows' k)"
  then show "map_of (monthlyMap R dc vc rows') k = map_of (monthlyMap R dc vc rows) k"
    unfolding monthlyMap_def by (simp add: unrounded_perm [OF assms])
next
  assume "unrounded (values_of (po_row R pc dc vc (startDate_of sm) (endDate_of sm)) rows k) \<and>
          unrounded (values_of (po_row R pc dc vc (startDate_of sm) (endDate_of sm)) rows' k)"
  then show "map_of (poMap R pc dc vc sm rows') k = map_of (poMap R pc dc vc sm rows) k"
    unfolding poMap_def by (simp add: unrounded_perm [OF assms])
next
  assume c: "exact_column vc rows"
  note m = exact_column_weights [OF c monthly_row_number, of "monthly_row R dc vc"]
  show "map_of (monthlyMap R dc vc rows') = map_of (monthlyMap R dc vc rows)"
    unfolding monthlyMap_def by (rule exact_perm [OF assms m])
  note p = exact_column_weights [OF c po_row_number,
      of "po_row R pc dc vc (startDate_of sm) (endDate_of sm)"]
  show "map_of (poMap R pc dc vc sm rows') = map_of (poMap R pc dc vc sm rows)"
    unfolding poMap_def by (rule exact_perm [OF assms p])
qed


theorem aggregation_of_permuted_rows_witness:
  "mset (rev (data monthly_sheet)) = mset (data monthly_sheet)
   \<and> exact_column ''Amount'' (data monthly_sheet)
   \<and> unrounded (values_of (monthly_row example_runtime ''Date'' ''Amount'')
        (data monthly_sheet) ''2024-01'')
   \<and> unrounded (values_of (monthly_row example_runtime ''Date'' ''Amount'')
        (rev (data monthly_sheet)) ''2024-01'')
   \<and> map_of (monthlyMap example_runtime ''Date'' ''Amount'' (rev (data monthly_sheet))) ''2024-01''
       = Some 150
   \<and> monthlyMap example_runtime ''Date'' ''Amount'' (data monthly_sheet)
       = [(''2024-01'', 150), (''2024-02'', 30)]
   \<and> monthlyMap example_runtime ''Date'' ''Amount'' (rev (data monthly_sheet))
       = [(''2024-02'', 30), (''2024-01'', 150)]
   \<and> map_of (monthlyMap example_runtime ''Date'' ''Amount'' (rev (data monthly_sheet)))
       = map_of (monthlyMap example_runtime ''Date'' ''Amount'' (data monthly_sheet))"
proof -
  have p: "mset (rev (data monthly_sheet)) = mset (data monthly_sheet)"
    by simp
  have c: "exact_column ''Amount'' (data monthly_sheet)"
    by code_simp
  have u: "unrounded (values_of (monthly_row example_runtime ''Date'' ''Amount'')
        (data monthly_sheet) ''2024-01'')"
    by code_simp
  have u': "unrounded (values_of (monthly_row example_runtime ''Date'' ''Amount'')
        (rev (data monthly_sheet)) ''2024-01'')"
    by code_simp
  have 1: "monthlyMap example_runtime ''Date'' ''Amount'' (data monthly_sheet)
       = [(''2024-01'', 150), (''2024-02'', 30)]"
    by code_simp
  have 2: "monthlyMap example_runtime ''Date'' ''Amount'' (rev (data monthly_sheet))
       = [(''2024-02'', 30), (''2024-01'', 150)]"
    by code_simp
  note t = aggregation_of_permuted_rows [OF p, of example_runtime "''Date''" "''Amount''"
      "''2024-01''"]
  from t u u'
  have "map_of (monthlyMap example_runtime ''Date'' ''Amount'' (rev (data monthly_sheet))) ''2024-01''
       = map_of (monthlyMap example_runtime ''Date'' ''Amount'' (data monthly_sheet)) ''2024-01''"
    by blast
  then have 3: "map_of (monthlyMap example_runtime ''Date'' ''Amount'' (rev (data monthly_sheet)))
       ''2024-01'' = Some 150"
    unfolding 1 by simp
  from t c
  have "map_of (monthlyMap example_runtime ''Date'' ''Amount'' (rev (data monthly_sheet)))
       = map_of (monthlyMap example_runtime ''Date'' ''Amount'' (data monthly_sheet))"
    by blast
  with p c u u' 1 2 3 show ?thesis by blast
qed

text \<open>
  Claim C6 as stated fails: sums are rounded to 53 bits. The rows with the values \<open>2^53\<close>,
  1, 1 of one month give the total \<open>2^53\<close> in this order and \<open>2^53 + 2\<close> in the order 1, 1,
  \<open>2^53\<close>. That no addition is rounded in one of the orders is not enough: the values
  \<open>2^53\<close>, \<open>- 2^53\<close>, 1, 1 add up to 2 without rounding, and to 0 in the order \<open>2^53\<close>, 1, 1,
  \<open>- 2^53\<close>.
\<close>

theorem rounded_totals_counterexample:
  "mset [unit_row, unit_row, big_row] = mset [big_row, unit_row, unit_row]
   \<and> monthlyMap example_runtime ''Date'' ''Amount'' [big_row, unit_row, unit_row]
       = [(''2024-01'', 9007199254740992)]
   \<and> monthlyMap example_runtime ''Date'' ''Amount'' [unit_row, unit_row, big_row]
       = [(''2024-01'', 9007199254740994)]
   \<and> unrounded (values_of (monthly_row example_runtime ''Date'' ''Amount'')
        [big_row, neg_big_row, unit_row, unit_row] ''2024-01'')
   \<and> monthlyMap example_runtime ''Date'' ''Amount'' [big_row, neg_big_row, unit_row, unit_row]
       = [(''2024-01'', 2)]
   \<and> monthlyMap example_runtime ''Date'' ''Amount'' [big_row, unit_row, unit_row, neg_big_row]
       = [(''2024-01'', 0)]"
proof (intro conjI)
  show "mset [unit_row, unit_row, big_row] = mset [big_row, unit_row, unit_row]"
    by simp
  show "monthlyMap example_runtime ''Date'' ''Amount'' [big_row, unit_row, unit_row]
       = [(''2024-01'', 9007199254740992)]"
    by code_simp
  show "monthlyMap example_runtime ''Date'' ''Amount'' [unit_row, unit_row, big_row]
       = [(''2024-01'', 9007199254740994)]"
    by code_simp
  show "unrounded (values_of (monthly_row example_runtime ''Date'' ''Amount'')
        [big_row, neg_big_row, unit_row, unit_row] ''2024-01'')"
    by code_simp
  show "monthlyMap example_runtime ''Date'' ''Amount'' [big_row, neg_big_row, unit_row, unit_row]
       = [(''2024-01'', 2)]"
    by code_simp
  show "monthlyMap example_runtime ''Date'' ''Amount'' [big_row, unit_row, unit_row, neg_big_row]
       = [(''2024-01'', 0)]"
    by code_simp
qed

end
